theory Spec2Isabelle
  imports Complex_Main "HOL-Library.Char_ord" "HOL-Library.List_Lexorder"
begin

section \<open>Prompt preprocessing: controller and step controllers\<close>

text \<open>
  The classes \<^verbatim>\<open>PromptPreprocessController\<close>, \<^verbatim>\<open>PredictionProcessStatusController\<close>,
  \<^verbatim>\<open>PredictionProcessCitationBlockController\<close> and
  \<^verbatim>\<open>PredictionProcessDebugInfoBlockController\<close>.

  A method that mutates its object takes the state and returns the new state; a method
  that may throw returns \<open>Inl\<close> of the error \<^emph>\<open>together with\<close> the state reached at the
  throw, because a JavaScript exception does not undo the assignments made before it.

  The status controllers are objects that refer to one another (\<^verbatim>\<open>lastSubStatus\<close>), so they
  live in a store: the list \<open>statusControllers\<close>, a reference being an index into it and
  \<^verbatim>\<open>new\<close> appending to it. A \<^verbatim>\<open>StatusStepState\<close> object is held by value: every call is taken
  to be handed a state object of its own, which its caller does not mutate afterwards.
  The coprocessor is a sink: \<open>handled\<close> lists the updates its \<^verbatim>\<open>handleUpdate\<close> has received,
  oldest first, each as it was when handed over. The fields \<^verbatim>\<open>context\<close>, \<^verbatim>\<open>userMessage\<close>
  and \<^verbatim>\<open>abortSignal\<close> are read-only and are left out; \<^verbatim>\<open>debug\<close> is \<^verbatim>\<open>createDebugInfoBlock\<close> on
  the text its arguments are joined to, and that text is taken as given.
\<close>

record StatusStepState =
  status :: string
  text' :: string

datatype UpdateLocation = AfterId string

text \<open>
  \<^verbatim>\<open>PromptPreprocessorUpdate\<close>: the four variants the controllers emit. The optional fields
  \<^verbatim>\<open>location\<close> and \<^verbatim>\<open>indentation\<close> of \<^verbatim>\<open>status.create\<close> are options. The type of a citation's
  source is a parameter.
\<close>

datatype 'src PromptPreprocessorUpdate =
    StatusCreate string StatusStepState "UpdateLocation option" "nat option"
  | StatusUpdate string StatusStepState
  | CitationBlockCreate string string 'src
  | DebugInfoBlockCreate string string

datatype error = Error string

record PredictionProcessStatusController =
  id' :: string
  indentation :: nat
  lastSubStatus :: nat
  lastState :: StatusStepState

datatype PredictionStepController =
    StatusController nat
  | CitationBlockController string
  | DebugInfoBlockController string

record 'src PromptPreprocessController =
  endedFlag :: bool
  stepControllers :: "PredictionStepController list"
  handled :: "'src PromptPreprocessorUpdate list"
  statusControllers :: "PredictionProcessStatusController list"

definition newController :: "'src PromptPreprocessController" where
  "newController =
     \<lparr>endedFlag = False, stepControllers = [], handled = [], statusControllers = []\<rparr>"

subsection \<open>Identities\<close>

text \<open>
  \<^verbatim>\<open>createId\<close> returns \<^verbatim>\<open>`${Date.now()}-${Math.random()}`\<close>. The two readings are inputs of
  the model: \<open>now\<close> is the clock's reading in milliseconds, \<open>rnd\<close> the text JavaScript prints
  for the number \<^verbatim>\<open>Math.random()\<close> returned. \<open>showNat\<close> is the decimal text of an integer.
\<close>

definition digit :: "nat \<Rightarrow> char" where
  "digit d = ''0123456789'' ! d"

function showNat :: "nat \<Rightarrow> string" where
  "showNat n = (if n < 10 then [digit n] else showNat (n div 10) @ [digit (n mod 10)])"
  by pat_completeness auto
termination
  by (relation "measure (\<lambda>n. n)") auto

declare showNat.simps [simp del]

definition createId :: "nat \<Rightarrow> string \<Rightarrow> string" where
  "createId now rnd = showNat now @ ''-'' @ rnd"

subsection \<open>PromptPreprocessController\<close>

definition hasEnded :: "'src PromptPreprocessController \<Rightarrow> bool" where
  "hasEnded w = endedFlag w"

definition sendUpdate ::
  "'src PromptPreprocessorUpdate \<Rightarrow> 'src PromptPreprocessController
     \<Rightarrow> (error + unit) \<times> 'src PromptPreprocessController" where
  "sendUpdate update w =
     (if hasEnded w then (Inl (Error ''Prediction process has ended.''), w)
      else (Inr (), w\<lparr>handled := handled w @ [update]\<rparr>))"

definition createStatus ::
  "nat \<Rightarrow> string \<Rightarrow> StatusStepState \<Rightarrow> 'src PromptPreprocessController
     \<Rightarrow> (error + nat) \<times> 'src PromptPreprocessController" where
  "createStatus now rnd initialState w =
     (let i = createId now rnd in
      case sendUpdate (StatusCreate i initialState None None) w of
        (Inl e, w1) \<Rightarrow> (Inl e, w1)
      | (Inr _, w1) \<Rightarrow>
          (let c = length (statusControllers w1) in
           (Inr c,
            w1\<lparr>statusControllers := statusControllers w1 @
                   [\<lparr>id' = i, indentation = 0, lastSubStatus = c, lastState = initialState\<rparr>],
               stepControllers := stepControllers w1 @ [StatusController c]\<rparr>)))"

definition createCitationBlock ::
  "nat \<Rightarrow> string \<Rightarrow> string \<Rightarrow> 'src \<Rightarrow> 'src PromptPreprocessController
     \<Rightarrow> (error + PredictionStepController) \<times> 'src PromptPreprocessController" where
  "createCitationBlock now rnd citedText source w =
     (let i = createId now rnd in
      case sendUpdate (CitationBlockCreate i citedText source) w of
        (Inl e, w1) \<Rightarrow> (Inl e, w1)
      | (Inr _, w1) \<Rightarrow>
          (Inr (CitationBlockController i),
           w1\<lparr>stepControllers := stepControllers w1 @ [CitationBlockController i]\<rparr>))"

definition createDebugInfoBlock ::
  "nat \<Rightarrow> string \<Rightarrow> string \<Rightarrow> 'src PromptPreprocessController
     \<Rightarrow> (error + PredictionStepController) \<times> 'src PromptPreprocessController" where
  "createDebugInfoBlock now rnd debugInfo w =
     (let i = createId now rnd in
      case sendUpdate (DebugInfoBlockCreate i debugInfo) w of
        (Inl e, w1) \<Rightarrow> (Inl e, w1)
      | (Inr _, w1) \<Rightarrow>
          (Inr (DebugInfoBlockController i),
           w1\<lparr>stepControllers := stepControllers w1 @ [DebugInfoBlockController i]\<rparr>))"

subsection \<open>PredictionProcessStatusController\<close>

text \<open>
  \<open>c\<close> is the reference of the status controller the method is called on. Both setters
  assign first and send afterwards, as the source does.
\<close>

definition setText ::
  "nat \<Rightarrow> string \<Rightarrow> 'src PromptPreprocessController
     \<Rightarrow> (error + unit) \<times> 'src PromptPreprocessController" where
  "setText c t w =
     (let this = statusControllers w ! c;
          this1 = this\<lparr>lastState := (lastState this)\<lparr>text' := t\<rparr>\<rparr>;
          w1 = w\<lparr>statusControllers := (statusControllers w)[c := this1]\<rparr>
      in sendUpdate (StatusUpdate (id' this1) (lastState this1)) w1)"

definition setState ::
  "nat \<Rightarrow> StatusStepState \<Rightarrow> 'src PromptPreprocessController
     \<Rightarrow> (error + unit) \<times> 'src PromptPreprocessController" where
  "setState c state w =
     (let this = statusControllers w ! c;
          this1 = this\<lparr>lastState := state\<rparr>;
          w1 = w\<lparr>statusControllers := (statusControllers w)[c := this1]\<rparr>
      in sendUpdate (StatusUpdate (id' this1) state) w1)"

text \<open>
  \<^verbatim>\<open>getNestedLastSubStatusBlockId\<close>: the loop follows \<^verbatim>\<open>lastSubStatus\<close> until a controller
  that is its own last sub-status. On a store with a cycle of references it does not
  return, and the walk is \<open>None\<close>.
\<close>

partial_function (option) lastSubStatusWalk ::
  "PredictionProcessStatusController list \<Rightarrow> nat \<Rightarrow> nat option" where
  "lastSubStatusWalk cs current =
     (if current \<noteq> lastSubStatus (cs ! current)
      then lastSubStatusWalk cs (lastSubStatus (cs ! current))
      else Some current)"

declare lastSubStatusWalk.simps [code]

definition getNestedLastSubStatusBlockId ::
  "nat \<Rightarrow> 'src PromptPreprocessController \<Rightarrow> string option" where
  "getNestedLastSubStatusBlockId c w =
     map_option (\<lambda>current. id' (statusControllers w ! current))
       (lastSubStatusWalk (statusControllers w) (lastSubStatus (statusControllers w ! c)))"

text \<open>
  \<^verbatim>\<open>addSubStatus\<close> draws the identity, builds the update (which walks the chain), sends it,
  and only then creates the child and makes it the receiver's \<^verbatim>\<open>lastSubStatus\<close>. The child
  is not pushed on \<^verbatim>\<open>stepControllers\<close>.
\<close>

definition addSubStatus ::
  "nat \<Rightarrow> string \<Rightarrow> nat \<Rightarrow> StatusStepState \<Rightarrow> 'src PromptPreprocessController
     \<Rightarrow> ((error + nat) \<times> 'src PromptPreprocessController) option" where
  "addSubStatus now rnd c initialState w =
     (let i = createId now rnd;
          this = statusControllers w ! c
      in case getNestedLastSubStatusBlockId c w of
           None \<Rightarrow> None
         | Some after \<Rightarrow>
             Some (case sendUpdate (StatusCreate i initialState (Some (AfterId after))
                                      (Some (indentation this + 1))) w of
                     (Inl e, w1) \<Rightarrow> (Inl e, w1)
                   | (Inr _, w1) \<Rightarrow>
                       (let n = length (statusControllers w1) in
                        (Inr n,
                         w1\<lparr>statusControllers :=
                              (statusControllers w1 @
                                 [\<lparr>id' = i, indentation = indentation this + 1,
                                   lastSubStatus = n, lastState = initialState\<rparr>])
                              [c := this\<lparr>lastSubStatus := n\<rparr>]\<rparr>))))"

subsection \<open>Forced termination\<close>

text \<open>
  The hook \<^verbatim>\<open>[ensureEnded]\<close> of the three classes, then \<^verbatim>\<open>end()\<close>: the loop over
  \<^verbatim>\<open>stepControllers\<close> stops at the first hook that throws, and the flag is set only when
  the loop has run through.
\<close>

fun ensureEnded ::
  "PredictionStepController \<Rightarrow> 'src PromptPreprocessController
     \<Rightarrow> (error + unit) \<times> 'src PromptPreprocessController" where
  "ensureEnded (StatusController c) w =
     (let this = statusControllers w ! c in
      if status (lastState this) \<in> set [''loading'', ''waiting'']
      then setState c \<lparr>status = ''canceled'', text' = text' (lastState this)\<rparr> w
      else (Inr (), w))"
| "ensureEnded (CitationBlockController i) w = (Inr (), w)"
| "ensureEnded (DebugInfoBlockController i) w = (Inr (), w)"

fun endLoop ::
  "PredictionStepController list \<Rightarrow> 'src PromptPreprocessController
     \<Rightarrow> (error + unit) \<times> 'src PromptPreprocessController" where
  "endLoop [] w = (Inr (), w)"
| "endLoop (controller # rest) w =
     (case ensureEnded controller w of
        (Inl e, w1) \<Rightarrow> (Inl e, w1)
      | (Inr _, w1) \<Rightarrow> endLoop rest w1)"

definition end' ::
  "'src PromptPreprocessController \<Rightarrow> (error + unit) \<times> 'src PromptPreprocessController" where
  "end' w =
     (case endLoop (stepControllers w) w of
        (Inl e, w1) \<Rightarrow> (Inl e, w1)
      | (Inr _, w1) \<Rightarrow> (Inr (), w1\<lparr>endedFlag := True\<rparr>))"

subsection \<open>Call sequences\<close>

text \<open>
  A client's use of one controller is a sequence of calls; a call that throws leaves the
  client free to go on (it caught the error). \<open>exec\<close> runs one call and returns the
  identity of the step the call created, if it created one, with the state after the
  call; it is \<open>None\<close> when the call does not return. A call can only be made on a status
  controller that exists: one on a reference outside the store is skipped.
\<close>

datatype 'src call =
    SendUpdate "'src PromptPreprocessorUpdate"
  | End
  | CreateStatus nat string StatusStepState
  | CreateCitationBlock nat string string 'src
  | CreateDebugInfoBlock nat string string
  | SetText nat string
  | SetState nat StatusStepState
  | AddSubStatus nat string nat StatusStepState

fun exec ::
  "'src call \<Rightarrow> 'src PromptPreprocessController
     \<Rightarrow> (string list \<times> 'src PromptPreprocessController) option" where
  "exec (SendUpdate u) w = Some ([], snd (sendUpdate u w))"
| "exec End w = Some ([], snd (end' w))"
| "exec (CreateStatus now rnd s) w =
     (case createStatus now rnd s w of
        (Inl e, w1) \<Rightarrow> Some ([], w1)
      | (Inr c, w1) \<Rightarrow> Some ([id' (statusControllers w1 ! c)], w1))"
| "exec (CreateCitationBlock now rnd citedText source) w =
     (case createCitationBlock now rnd citedText source w of
        (Inr (CitationBlockController i), w1) \<Rightarrow> Some ([i], w1)
      | (_, w1) \<Rightarrow> Some ([], w1))"
| "exec (CreateDebugInfoBlock now rnd debugInfo) w =
     (case createDebugInfoBlock now rnd debugInfo w of
        (Inr (DebugInfoBlockController i), w1) \<Rightarrow> Some ([i], w1)
      | (_, w1) \<Rightarrow> Some ([], w1))"
| "exec (SetText c t) w =
     (if c < length (statusControllers w) then Some ([], snd (setText c t w)) else Some ([], w))"
| "exec (SetState c s) w =
     (if c < length (statusControllers w) then Some ([], snd (setState c s w)) else Some ([], w))"
| "exec (AddSubStatus now rnd c s) w =
     (if c < length (statusControllers w)
      then (case addSubStatus now rnd c s w of
              None \<Rightarrow> None
            | Some (Inl e, w1) \<Rightarrow> Some ([], w1)
            | Some (Inr n, w1) \<Rightarrow> Some ([id' (statusControllers w1 ! n)], w1))
      else Some ([], w))"

fun run ::
  "'src call list \<Rightarrow> 'src PromptPreprocessController
     \<Rightarrow> (string list \<times> 'src PromptPreprocessController) option" where
  "run [] w = Some ([], w)"
| "run (x # xs) w =
     (case exec x w of
        None \<Rightarrow> None
      | Some (ids, w1) \<Rightarrow>
          (case run xs w1 of
             None \<Rightarrow> None
           | Some (ids', w2) \<Rightarrow> Some (ids @ ids', w2)))"

text \<open>The clock reading and the random draw of the calls that create a step.\<close>

fun draws :: "'src call \<Rightarrow> (nat \<times> string) list" where
  "draws (CreateStatus now rnd s) = [(now, rnd)]"
| "draws (CreateCitationBlock now rnd citedText source) = [(now, rnd)]"
| "draws (CreateDebugInfoBlock now rnd debugInfo) = [(now, rnd)]"
| "draws (AddSubStatus now rnd c s) = [(now, rnd)]"
| "draws x = []"

text \<open>
  The shape every store built by the calls has: each status controller's \<^verbatim>\<open>lastSubStatus\<close>
  is itself or a controller created after it, and every registered status controller is
  in the store.
\<close>

definition wellFormed :: "'src PromptPreprocessController \<Rightarrow> bool" where
  "wellFormed w =
     ((\<forall>c \<in> set [0 ..< length (statusControllers w)].
          c \<le> lastSubStatus (statusControllers w ! c)
        \<and> lastSubStatus (statusControllers w ! c) < length (statusControllers w))
    \<and> (\<forall>r \<in> set (stepControllers w).
          case r of StatusController c \<Rightarrow> c < length (statusControllers w) | _ \<Rightarrow> True))"

section \<open>LLMModel: the prediction entry points\<close>

text \<open>
  A JavaScript value, as far as the entry points handle one. An object whose fields are
  looked at (a prediction config) is the map of its own properties: a property that is
  set to \<^verbatim>\<open>undefined\<close> is present, with the value \<open>JUndefined\<close>.
\<close>

datatype jsvalue =
    JUndefined
  | JNull
  | JBoolean bool
  | JNumber real
  | JString string
  | JArray "jsvalue list"
  | JObject "(string \<times> jsvalue) list"

type_synonym LLMChatPredictionConfig = "string \<rightharpoonup> jsvalue"

text \<open>
  \<^verbatim>\<open>LLMCompletionOpts\<close> and \<^verbatim>\<open>LLMChatResponseOpts\<close> have the same two optional fields.
\<close>

record PredictionOpts =
  config :: "LLMChatPredictionConfig option"
  structured :: "jsvalue option"

type_synonym LLMCompletionOpts = PredictionOpts
type_synonym LLMChatResponseOpts = PredictionOpts

text \<open>
  The port: every \<^verbatim>\<open>createChannel\<close> call adds a channel with its endpoint name and its
  creation parameter \<^verbatim>\<open>{modelSpecifier, history, config, structured}\<close>; \<open>sent\<close> lists the
  messages sent on the channel since.
\<close>

record PredictParameter =
  modelSpecifier :: jsvalue
  history :: jsvalue
  config' :: LLMChatPredictionConfig
  structured' :: "jsvalue option"

record Channel =
  endpoint :: string
  parameter :: PredictParameter
  sent :: "jsvalue list"

record LLMPort =
  channels :: "Channel list"

record LLMModel =
  specifier :: jsvalue
  loaded :: bool

definition createChannel :: "string \<Rightarrow> PredictParameter \<Rightarrow> LLMPort \<Rightarrow> nat \<times> LLMPort" where
  "createChannel name p port =
     (length (channels port),
      port\<lparr>channels := channels port @ [\<lparr>endpoint = name, parameter = p, sent = []\<rparr>]\<rparr>)"

text \<open>
  \<^verbatim>\<open>predict\<close> opens the channel and subscribes its callbacks; subscribing sends nothing.
  What the subscription to the cancel event does when the event fires is \<open>onCancel\<close>.
\<close>

definition predict ::
  "jsvalue \<Rightarrow> jsvalue \<Rightarrow> LLMChatPredictionConfig \<Rightarrow> jsvalue option \<Rightarrow> LLMPort
     \<Rightarrow> nat \<times> LLMPort" where
  "predict modelSpecifier1 history1 config1 structured1 port =
     createChannel ''predict''
       \<lparr>modelSpecifier = modelSpecifier1, history = history1,
        config' = config1, structured' = structured1\<rparr> port"

definition onCancel :: "nat \<Rightarrow> LLMPort \<Rightarrow> LLMPort" where
  "onCancel ch port =
     port\<lparr>channels := (channels port)
            [ch := (channels port ! ch)
               \<lparr>sent := sent (channels port ! ch) @ [JObject [(''type'', JString ''cancel'')]]\<rparr>]\<rparr>"

text \<open>
  Modelled from the spec: \<^verbatim>\<open>SimpleLogger.throw\<close> (package lms-common, not among the
  sources) is the logger sink's throw capability: it raises an error that carries the
  message. Whatever the logger adds to the message is not modelled.
\<close>

definition loggerThrow :: "string \<Rightarrow> error" where
  "loggerThrow message = Error message"

text \<open>
  \<^verbatim>\<open>complete\<close> and \<^verbatim>\<open>respond\<close>. \<^verbatim>\<open>validateMethodParamsOrThrow\<close> (package lms-common) and the
  schemas it is given are not among the sources: the validator is a parameter, which
  either throws or returns the values the method goes on with. Creating the cancel event
  and the \<^verbatim>\<open>OngoingPrediction\<close> touches the port in no way. The result of a call is the
  error thrown, or the channel the returned \<^verbatim>\<open>OngoingPrediction\<close> is wired to.
\<close>

definition complete ::
  "(string \<times> LLMCompletionOpts \<Rightarrow> error + string \<times> LLMCompletionOpts)
     \<Rightarrow> LLMModel \<Rightarrow> string \<Rightarrow> LLMCompletionOpts \<Rightarrow> LLMPort \<Rightarrow> (error + nat) \<times> LLMPort" where
  "complete validateMethodParamsOrThrow this prompt opts port =
     (if \<not> loaded this
      then (Inl (loggerThrow ''Cannot use `complete` because the model is already unloaded.''),
            port)
      else case validateMethodParamsOrThrow (prompt, opts) of
             Inl e \<Rightarrow> (Inl e, port)
           | Inr (prompt1, opts1) \<Rightarrow>
               (let config1 = (case config opts1 of None \<Rightarrow> Map.empty | Some c \<Rightarrow> c);
                    structured1 = structured opts1;
                    (ch, port1) =
                      predict (specifier this)
                        (JArray [JObject [(''role'', JString ''user''),
                                          (''content'', JString prompt1)]])
                        (([''stopStrings'' \<mapsto> JArray []] ++ config1)
                           (''inputPrefix'' \<mapsto> JString '''',
                            ''inputSuffix'' \<mapsto> JString ''''))
                        structured1 port
                in (Inr ch, port1)))"

definition respond ::
  "(jsvalue \<times> LLMChatResponseOpts \<Rightarrow> error + jsvalue \<times> LLMChatResponseOpts)
     \<Rightarrow> LLMModel \<Rightarrow> jsvalue \<Rightarrow> LLMChatResponseOpts \<Rightarrow> LLMPort \<Rightarrow> (error + nat) \<times> LLMPort" where
  "respond validateMethodParamsOrThrow this history0 opts port =
     (if \<not> loaded this
      then (Inl (loggerThrow ''Cannot use `complete` because the model is already unloaded.''),
            port)
      else case validateMethodParamsOrThrow (history0, opts) of
             Inl e \<Rightarrow> (Inl e, port)
           | Inr (history1, opts1) \<Rightarrow>
               (let config1 = (case config opts1 of None \<Rightarrow> Map.empty | Some c \<Rightarrow> c);
                    structured1 = structured opts1;
                    (ch, port1) = predict (specifier this) history1 config1 structured1 port
                in (Inr ch, port1)))"

section \<open>UtilBinary\<close>

text \<open>
  A promise is looked at once it has settled. A call either returns or throws; calling a
  function of \<^verbatim>\<open>fs/promises\<close> returns the promise and never throws, whatever the promise
  settles to, which is \<open>callAsync\<close>. The probe \<^verbatim>\<open>access\<close> is a parameter: the promise it
  gives for a path stands for the filesystem. \<^verbatim>\<open>join\<close>, the home directory and the
  platform are parameters of the constructor.
\<close>

datatype 'a promise = Fulfilled 'a | Rejected error

datatype 'a completion = Returns 'a | Throws error

record UtilBinary =
  name :: string
  path :: string

definition newUtilBinary ::
  "(string list \<Rightarrow> string) \<Rightarrow> string \<Rightarrow> string \<Rightarrow> string \<Rightarrow> UtilBinary" where
  "newUtilBinary join homedir platform name1 =
     \<lparr>name = name1,
      path = join [homedir, ''.cache'', ''lm-studio'', ''.internal'', ''utils'',
                   if platform = ''win32'' then name1 @ ''.exe'' else name1]\<rparr>"

definition callAsync :: "('a \<Rightarrow> 'b promise) \<Rightarrow> 'a \<Rightarrow> 'b promise completion" where
  "callAsync f x = Returns (f x)"

text \<open>
  \<^verbatim>\<open>check\<close>: the promise of \<^verbatim>\<open>access\<close> is dropped, not awaited; the \<^verbatim>\<open>catch\<close> clause sees
  what the call throws. The result is what the promise returned by \<^verbatim>\<open>check\<close> settles to.
\<close>

definition check :: "(string \<Rightarrow> unit promise) \<Rightarrow> UtilBinary \<Rightarrow> unit promise" where
  "check access this =
     (case callAsync access (path this) of
        Returns p \<Rightarrow> Fulfilled ()
      | Throws e \<Rightarrow>
          Rejected (Error (''Cannot locate required dependencies ('' @ name this @
            ''). Please make sure you have the latest version of LM Studio installed.'')))"

section \<open>OngoingPrediction\<close>

text \<open>
  Modelled from the spec: \<^verbatim>\<open>OngoingPrediction\<close> (imported by LLMModel from
  \<^verbatim>\<open>./OngoingPrediction\<close>, which is not among the sources). The spec gives it an ordered
  sequence of received fragments and a terminal state; \<^verbatim>\<open>push\<close> appends a fragment,
  \<^verbatim>\<open>finish\<close> computes the success value (the concatenation of the fragments, with the
  statistics and the model descriptor) and \<^verbatim>\<open>fail\<close> records the error; an attempt on an
  instance that is already terminal is a no-op. The state "canceled" of the spec is left
  out: none of the three operations leads to it.
\<close>

record PredictionResult =
  content :: string
  stats :: jsvalue
  modelInfo :: jsvalue

datatype terminal = Pending | Succeeded PredictionResult | Failed error

record OngoingPrediction =
  fragments :: "string list"
  terminal :: terminal

definition create :: OngoingPrediction where
  "create = \<lparr>fragments = [], terminal = Pending\<rparr>"

definition push :: "string \<Rightarrow> OngoingPrediction \<Rightarrow> OngoingPrediction" where
  "push fragment p =
     (if terminal p = Pending then p\<lparr>fragments := fragments p @ [fragment]\<rparr> else p)"

definition finish :: "jsvalue \<Rightarrow> jsvalue \<Rightarrow> OngoingPrediction \<Rightarrow> OngoingPrediction" where
  "finish st mi p =
     (if terminal p = Pending
      then p\<lparr>terminal :=
               Succeeded \<lparr>content = concat (fragments p), stats = st, modelInfo = mi\<rparr>\<rparr>
      else p)"

definition fail :: "error \<Rightarrow> OngoingPrediction \<Rightarrow> OngoingPrediction" where
  "fail e p = (if terminal p = Pending then p\<lparr>terminal := Failed e\<rparr> else p)"

text \<open>
  The callbacks \<^verbatim>\<open>predict\<close> binds to the prediction the entry point created: on the
  channel's messages, a "fragment" message pushes its fragment and a "success" message
  finishes with its statistics and model descriptor, any other message is ignored; an
  error of the channel fails the prediction.
\<close>

datatype PredictMessage =
    FragmentMessage string
  | SuccessMessage jsvalue jsvalue
  | OtherMessage jsvalue

definition onMessage :: "PredictMessage \<Rightarrow> OngoingPrediction \<Rightarrow> OngoingPrediction" where
  "onMessage message p =
     (case message of
        FragmentMessage fragment \<Rightarrow> push fragment p
      | SuccessMessage st mi \<Rightarrow> finish st mi p
      | OtherMessage m \<Rightarrow> p)"

definition onError :: "error \<Rightarrow> OngoingPrediction \<Rightarrow> OngoingPrediction" where
  "onError e p = fail e p"

text \<open>
  Modelled from the spec: the awaited form resolves after a success and rejects after a
  failure; until then it is not settled (\<open>None\<close>).
\<close>

definition awaited :: "OngoingPrediction \<Rightarrow> (error + PredictionResult) option" where
  "awaited p =
     (case terminal p of
        Pending \<Rightarrow> None
      | Succeeded r \<Rightarrow> Some (Inr r)
      | Failed e \<Rightarrow> Some (Inl e))"

text \<open>
  Modelled from the spec: an iteration replays the buffer from its start (an append-only
  buffer, each consumer with a position of its own). Asked for its next item, it yields
  the fragment at its position when there is one; otherwise it waits while the prediction
  is pending, completes normally after a success and raises after a failure.
\<close>

datatype iteration = Iterating | Completed | Raised error

record iterator =
  cursor :: nat
  yielded :: "string list"
  outcome :: iteration

definition begin' :: iterator where
  "begin' = \<lparr>cursor = 0, yielded = [], outcome = Iterating\<rparr>"

definition pull :: "OngoingPrediction \<Rightarrow> iterator \<Rightarrow> iterator" where
  "pull p it =
     (case outcome it of
        Iterating \<Rightarrow>
          (if cursor it < length (fragments p)
           then it\<lparr>cursor := Suc (cursor it),
                   yielded := yielded it @ [fragments p ! cursor it]\<rparr>
           else (case terminal p of
                   Pending \<Rightarrow> it
                 | Succeeded r \<Rightarrow> it\<lparr>outcome := Completed\<rparr>
                 | Failed e \<Rightarrow> it\<lparr>outcome := Raised e\<rparr>))
      | Completed \<Rightarrow> it
      | Raised e \<Rightarrow> it)"

text \<open>
  Modelled from the spec: the scheduling is single-threaded, so a run of one prediction
  and its consumers is a sequence of events, in any interleaving: the channel handlers
  push, finish or fail; a consumer (named by a number) begins iterating or asks for its
  next item.
\<close>

datatype event =
    Push string
  | Finish jsvalue jsvalue
  | Fail error
  | Begin nat
  | Pull nat

record system =
  prediction :: OngoingPrediction
  iterators :: "nat \<rightharpoonup> iterator"

definition start :: system where
  "start = \<lparr>prediction = create, iterators = Map.empty\<rparr>"

fun step :: "event \<Rightarrow> system \<Rightarrow> system" where
  "step (Push f) s = s\<lparr>prediction := push f (prediction s)\<rparr>"
| "step (Finish st mi) s = s\<lparr>prediction := finish st mi (prediction s)\<rparr>"
| "step (Fail e) s = s\<lparr>prediction := fail e (prediction s)\<rparr>"
| "step (Begin c) s =
     (case iterators s c of
        None \<Rightarrow> s\<lparr>iterators := (iterators s)(c \<mapsto> begin')\<rparr>
      | Some it \<Rightarrow> s)"
| "step (Pull c) s =
     (case iterators s c of
        None \<Rightarrow> s
      | Some it \<Rightarrow> s\<lparr>iterators := (iterators s)(c \<mapsto> pull (prediction s) it)\<rparr>)"

fun runEvents :: "event list \<Rightarrow> system \<Rightarrow> system" where
  "runEvents [] s = s"
| "runEvents (e # es) s = runEvents es (step e s)"

text \<open>The fragments a sequence of events pushes, and the events that end a prediction.\<close>

fun pushed :: "event list \<Rightarrow> string list" where
  "pushed [] = []"
| "pushed (Push f # es) = f # pushed es"
| "pushed (e # es) = pushed es"

fun endsPrediction :: "event \<Rightarrow> bool" where
  "endsPrediction (Finish st mi) = True"
| "endsPrediction (Fail e) = True"
| "endsPrediction e = False"

text \<open>
  What holds of every iteration as long as the prediction has not failed: it has yielded
  the fragments before its position, it has not raised, and it has completed only after
  a success and at the end of the buffer.
\<close>

definition replayed :: "OngoingPrediction \<Rightarrow> iterator \<Rightarrow> bool" where
  "replayed p it =
     (cursor it \<le> length (fragments p)
    \<and> yielded it = take (cursor it) (fragments p)
    \<and> (outcome it = Iterating
        \<or> (outcome it = Completed \<and> cursor it = length (fragments p) \<and> terminal p \<noteq> Pending)))"

definition sound :: "system \<Rightarrow> bool" where
  "sound s =
     ((\<forall>e. terminal (prediction s) \<noteq> Failed e)
    \<and> (\<forall>c it. iterators s c = Some it \<longrightarrow> replayed (prediction s) it))"

definition streamingEvents :: "event list" where
  "streamingEvents =
     [Begin 1, Push ''2 + 2'', Pull 1, Push '' = '', Begin 2, Pull 2, Push ''4'',
      Finish (JObject [(''tokensPerSecond'', JNumber 10)]) (JString ''my-model''),
      Pull 1, Begin 3]"

section \<open>Notions used to state the properties\<close>

text \<open>
  \<open>stillOpen\<close> is the test \<^verbatim>\<open>[ensureEnded]\<close> makes, \<open>canceledState\<close> the state it then sets,
  \<open>statusRefs\<close> the status controllers among registered step controllers, in order.
\<close>

definition stillOpen :: "PredictionProcessStatusController \<Rightarrow> bool" where
  "stillOpen k = (status (lastState k) \<in> set [''loading'', ''waiting''])"

definition canceledState :: "PredictionProcessStatusController \<Rightarrow> StatusStepState" where
  "canceledState k = \<lparr>status = ''canceled'', text' = text' (lastState k)\<rparr>"

fun statusRefs :: "PredictionStepController list \<Rightarrow> nat list" where
  "statusRefs [] = []"
| "statusRefs (StatusController c # rest) = c # statusRefs rest"
| "statusRefs (x # rest) = statusRefs rest"

text \<open>The number a digit stands for, and the draws of a whole sequence of calls.\<close>

definition digitVal :: "char \<Rightarrow> nat" where
  "digitVal ch = of_char ch - 48"

definition readNat :: "string \<Rightarrow> nat" where
  "readNat s = foldl (\<lambda>a ch. 10 * a + digitVal ch) 0 s"

definition allDraws :: "'src call list \<Rightarrow> (nat \<times> string) list" where
  "allDraws xs = concat (map draws xs)"

text \<open>
  \<open>liveCalls n xs\<close>: on a controller with \<open>n\<close> status controllers the sequence \<open>xs\<close> never
  ends the controller and calls \<^verbatim>\<open>addSubStatus\<close> only on status controllers that exist by
  then. \<open>idsDistinctAndOrdered\<close> is the property of a list of identities to be pairwise
  distinct and increasing, as strings, in the order of the list.
\<close>

fun liveCalls :: "nat \<Rightarrow> 'src call list \<Rightarrow> bool" where
  "liveCalls n [] = True"
| "liveCalls n (End # xs) = False"
| "liveCalls n (CreateStatus now rnd s # xs) = liveCalls (Suc n) xs"
| "liveCalls n (AddSubStatus now rnd c s # xs) = (c < n \<and> liveCalls (Suc n) xs)"
| "liveCalls n (x # xs) = liveCalls n xs"

definition idsDistinctAndOrdered :: "string list \<Rightarrow> bool" where
  "idsDistinctAndOrdered ids = (distinct ids \<and> sorted_wrt (<) ids)"

definition idsOf :: "'src call list \<Rightarrow> string list" where
  "idsOf xs = (case run xs newController of Some (ids, w) \<Rightarrow> ids | None \<Rightarrow> [])"

subsection \<open>Example runs\<close>

definition exampleModel :: LLMModel where
  "exampleModel = \<lparr>specifier = JString ''my-model'', loaded = True\<rparr>"

definition exampleOpts :: PredictionOpts where
  "exampleOpts =
     \<lparr>config = Some [''stopStrings'' \<mapsto> JArray [JString ''END''],
                     ''inputPrefix'' \<mapsto> JString ''### ''],
      structured = None\<rparr>"

definition exampleHistory :: jsvalue where
  "exampleHistory =
     JArray [JObject [(''role'', JString ''user''), (''content'', JString ''2+2='')]]"

text \<open>
  A controller with a waiting, a loading and a done step, a citation block and a debug
  block; and a run that gives a loading step a loading sub-status and then ends.
\<close>

definition exampleCalls :: "unit call list" where
  "exampleCalls =
     [CreateStatus 1 ''0.1'' \<lparr>status = ''waiting'', text' = ''a''\<rparr>,
      CreateStatus 2 ''0.2'' \<lparr>status = ''loading'', text' = ''b''\<rparr>,
      CreateStatus 3 ''0.3'' \<lparr>status = ''done'', text' = ''c''\<rparr>,
      CreateCitationBlock 4 ''0.4'' ''cited'' (),
      CreateDebugInfoBlock 5 ''0.5'' ''note'']"

definition exampleController :: "unit PromptPreprocessController" where
  "exampleController =
     (case run exampleCalls newController of Some (ids, w) \<Rightarrow> w | None \<Rightarrow> newController)"

definition subStatusCalls :: "unit call list" where
  "subStatusCalls =
     [CreateStatus 1 ''0.1'' \<lparr>status = ''loading'', text' = ''parent''\<rparr>,
      AddSubStatus 2 ''0.2'' 0 \<lparr>status = ''loading'', text' = ''child''\<rparr>,
      End]"

definition nestedCalls :: "unit call list" where
  "nestedCalls =
     [CreateStatus 1 ''0.1'' \<lparr>status = ''loading'', text' = ''parent''\<rparr>,
      AddSubStatus 2 ''0.2'' 0 \<lparr>status = ''loading'', text' = ''child''\<rparr>,
      AddSubStatus 3 ''0.3'' 1 \<lparr>status = ''loading'', text' = ''grandchild''\<rparr>]"

definition nestedController :: "unit PromptPreprocessController" where
  "nestedController =
     (case run nestedCalls newController of Some (ids, w) \<Rightarrow> w | None \<Rightarrow> newController)"

definition lateCalls :: "unit call list" where
  "lateCalls =
     [SetState 1 \<lparr>status = ''loading'', text' = ''again''\<rparr>,
      CreateStatus 6 ''0.6'' \<lparr>status = ''loading'', text' = ''late''\<rparr>,
      AddSubStatus 7 ''0.7'' 0 \<lparr>status = ''loading'', text' = ''late child''\<rparr>,
      End]"

definition sameMillisecondCalls :: "unit call list" where
  "sameMillisecondCalls =
     [CreateStatus 5 ''0.9'' \<lparr>status = ''loading'', text' = ''first''\<rparr>,
      CreateStatus 5 ''0.1'' \<lparr>status = ''loading'', text' = ''second''\<rparr>]"

definition sameDrawCalls :: "unit call list" where
  "sameDrawCalls =
     [CreateStatus 5 ''0.5'' \<lparr>status = ''loading'', text' = ''first''\<rparr>,
      CreateDebugInfoBlock 5 ''0.5'' ''second'']"

definition mixedCalls :: "unit call list" where
  "mixedCalls =
     [CreateStatus 5 ''0.9'' \<lparr>status = ''loading'', text' = ''first''\<rparr>,
      AddSubStatus 5 ''0.1'' 0 \<lparr>status = ''loading'', text' = ''child''\<rparr>,
      CreateCitationBlock 6 ''0.1'' ''cited'' (),
      CreateDebugInfoBlock 7 ''0.25'' ''note'']"

text \<open>
  The steps of \<open>exampleController\<close> after \<^verbatim>\<open>end()\<close> and two late \<^verbatim>\<open>setState\<close> calls, which
  throw but leave the first two steps recorded as loading.
\<close>

definition reopenedCalls :: "unit call list" where
  "reopenedCalls =
     exampleCalls @
     [End,
      SetState 0 \<lparr>status = ''loading'', text' = ''a''\<rparr>,
      SetState 1 \<lparr>status = ''loading'', text' = ''b''\<rparr>]"

definition reopenedController :: "unit PromptPreprocessController" where
  "reopenedController =
     (case run reopenedCalls newController of Some (ids, w) \<Rightarrow> w | None \<Rightarrow> newController)"

section \<open>Forced termination by end()\<close>

lemma sendUpdate_live:
  "\<not> hasEnded w \<Longrightarrow> sendUpdate u w = (Inr (), w\<lparr>handled := handled w @ [u]\<rparr>)"
  by (simp add: sendUpdate_def)

lemma sendUpdate_ended:
  "hasEnded w \<Longrightarrow> sendUpdate u w = (Inl (Error ''Prediction process has ended.''), w)"
  by (simp add: sendUpdate_def)

lemma ensureEnded_status_live:
  assumes "\<not> hasEnded w"
  shows "ensureEnded (StatusController c) w =
    (Inr (), if stillOpen (statusControllers w ! c)
             then w\<lparr>statusControllers :=
                      (statusControllers w)[c := (statusControllers w ! c)
                          \<lparr>lastState := canceledState (statusControllers w ! c)\<rparr>],
                    handled := handled w @
                      [StatusUpdate (id' (statusControllers w ! c))
                         (canceledState (statusControllers w ! c))]\<rparr>
             else w)"
  using assms
  by (simp add: setState_def sendUpdate_def hasEnded_def Let_def stillOpen_def canceledState_def)

lemma not_stillOpen_canceled [simp]:
  "\<not> stillOpen (k\<lparr>lastState := canceledState k'\<rparr>)"
  by (simp add: stillOpen_def canceledState_def)

lemma statusRefs_set: "c \<in> set (statusRefs l) \<longleftrightarrow> StatusController c \<in> set l"
  by (induction l rule: statusRefs.induct) auto

lemma statusRefs_distinct: "distinct l \<Longrightarrow> distinct (statusRefs l)"
  by (induction l rule: statusRefs.induct) (auto simp: statusRefs_set)

lemma endLoop_live:
  assumes "\<not> hasEnded w"
      and "\<forall>c. StatusController c \<in> set l \<longrightarrow> c < length (statusControllers w)"
  shows "fst (endLoop l w) = Inr ()
       \<and> endedFlag (snd (endLoop l w)) = endedFlag w
       \<and> stepControllers (snd (endLoop l w)) = stepControllers w
       \<and> length (statusControllers (snd (endLoop l w))) = length (statusControllers w)
       \<and> (\<forall>c < length (statusControllers w).
            statusControllers (snd (endLoop l w)) ! c =
              (if StatusController c \<in> set l \<and> stillOpen (statusControllers w ! c)
               then (statusControllers w ! c)\<lparr>lastState := canceledState (statusControllers w ! c)\<rparr>
               else statusControllers w ! c))
       \<and> (distinct l \<longrightarrow>
            handled (snd (endLoop l w)) = handled w @
              map (\<lambda>c. StatusUpdate (id' (statusControllers w ! c))
                          (canceledState (statusControllers w ! c)))
                  (filter (\<lambda>c. stillOpen (statusControllers w ! c)) (statusRefs l)))"
  using assms
proof (induction l arbitrary: w)
  case Nil
  then show ?case by simp
next
  case (Cons x rest)
  show ?case
  proof (cases x)
    case (StatusController r)
    define w1 where "w1 = snd (ensureEnded x w)"
    have r: "r < length (statusControllers w)"
      using Cons.prems(2) StatusController by simp
    have e: "ensureEnded x w = (Inr (), w1)"
      using ensureEnded_status_live[OF Cons.prems(1), of r] StatusController
      by (simp add: w1_def)
    have w1: "w1 = (if stillOpen (statusControllers w ! r)
             then w\<lparr>statusControllers :=
                      (statusControllers w)[r := (statusControllers w ! r)
                          \<lparr>lastState := canceledState (statusControllers w ! r)\<rparr>],
                    handled := handled w @
                      [StatusUpdate (id' (statusControllers w ! r))
                         (canceledState (statusControllers w ! r))]\<rparr>
             else w)"
      using ensureEnded_status_live[OF Cons.prems(1), of r] StatusController
      by (simp add: w1_def)
    have live1: "\<not> hasEnded w1" using Cons.prems(1) by (simp add: w1 hasEnded_def)
    have len1: "length (statusControllers w1) = length (statusControllers w)"
      by (simp add: w1)
    have reg1: "\<forall>c. StatusController c \<in> set rest \<longrightarrow> c < length (statusControllers w1)"
      using Cons.prems(2) by (simp add: len1)
    note IH = Cons.IH[OF live1 reg1]
    have step: "endLoop (x # rest) w = endLoop rest w1" using e by simp
    have other: "\<And>c. c \<noteq> r \<Longrightarrow> statusControllers w1 ! c = statusControllers w ! c"
      by (simp add: w1)
    have same: "statusControllers w1 ! r =
        (if stillOpen (statusControllers w ! r)
         then (statusControllers w ! r)\<lparr>lastState := canceledState (statusControllers w ! r)\<rparr>
         else statusControllers w ! r)"
      using r by (simp add: w1)
    have c1: "fst (endLoop (x # rest) w) = Inr ()" using IH step by simp
    have c2: "endedFlag (snd (endLoop (x # rest) w)) = endedFlag w"
      using IH step by (simp add: w1)
    have c3: "stepControllers (snd (endLoop (x # rest) w)) = stepControllers w"
      using IH step by (simp add: w1)
    have c4: "length (statusControllers (snd (endLoop (x # rest) w))) = length (statusControllers w)"
      using IH step len1 by simp
    have c5: "\<forall>c < length (statusControllers w).
            statusControllers (snd (endLoop (x # rest) w)) ! c =
              (if StatusController c \<in> set (x # rest) \<and> stillOpen (statusControllers w ! c)
               then (statusControllers w ! c)\<lparr>lastState := canceledState (statusControllers w ! c)\<rparr>
               else statusControllers w ! c)"
    proof (intro allI impI)
      fix c assume c: "c < length (statusControllers w)"
      have ih: "statusControllers (snd (endLoop rest w1)) ! c =
              (if StatusController c \<in> set rest \<and> stillOpen (statusControllers w1 ! c)
               then (statusControllers w1 ! c)\<lparr>lastState := canceledState (statusControllers w1 ! c)\<rparr>
               else statusControllers w1 ! c)"
        using IH c len1 by simp
      show "statusControllers (snd (endLoop (x # rest) w)) ! c =
              (if StatusController c \<in> set (x # rest) \<and> stillOpen (statusControllers w ! c)
               then (statusControllers w ! c)\<lparr>lastState := canceledState (statusControllers w ! c)\<rparr>
               else statusControllers w ! c)"
      proof (cases "c = r")
        case True
        then show ?thesis using ih same step StatusController by simp
      next
        case False
        then show ?thesis using ih other[OF False] step StatusController by simp
      qed
    qed
    have c6: "distinct (x # rest) \<longrightarrow>
            handled (snd (endLoop (x # rest) w)) = handled w @
              map (\<lambda>c. StatusUpdate (id' (statusControllers w ! c))
                          (canceledState (statusControllers w ! c)))
                  (filter (\<lambda>c. stillOpen (statusControllers w ! c)) (statusRefs (x # rest)))"
    proof
      assume d: "distinct (x # rest)"
      then have nr: "r \<notin> set (statusRefs rest)"
        using StatusController by (simp add: statusRefs_set)
      have eq: "\<And>c. c \<in> set (statusRefs rest) \<Longrightarrow> statusControllers w1 ! c = statusControllers w ! c"
        using nr other by metis
      have f: "filter (\<lambda>c. stillOpen (statusControllers w1 ! c)) (statusRefs rest)
             = filter (\<lambda>c. stillOpen (statusControllers w ! c)) (statusRefs rest)"
        using eq by (intro filter_cong) simp_all
      have m: "map (\<lambda>c. StatusUpdate (id' (statusControllers w1 ! c))
                          (canceledState (statusControllers w1 ! c)))
                  (filter (\<lambda>c. stillOpen (statusControllers w ! c)) (statusRefs rest))
            = map (\<lambda>c. StatusUpdate (id' (statusControllers w ! c))
                          (canceledState (statusControllers w ! c)))
                  (filter (\<lambda>c. stillOpen (statusControllers w ! c)) (statusRefs rest))"
        using eq by (intro map_cong) simp_all
      have "handled (snd (endLoop rest w1)) = handled w1 @
              map (\<lambda>c. StatusUpdate (id' (statusControllers w ! c))
                          (canceledState (statusControllers w ! c)))
                  (filter (\<lambda>c. stillOpen (statusControllers w ! c)) (statusRefs rest))"
        using IH d f m by simp
      then show "handled (snd (endLoop (x # rest) w)) = handled w @
              map (\<lambda>c. StatusUpdate (id' (statusControllers w ! c))
                          (canceledState (statusControllers w ! c)))
                  (filter (\<lambda>c. stillOpen (statusControllers w ! c)) (statusRefs (x # rest)))"
        using step StatusController by (simp add: w1)
    qed
    show ?thesis using c1 c2 c3 c4 c5 c6 by blast
  next
    case (CitationBlockController i)
    then show ?thesis using Cons.IH[OF Cons.prems(1)] Cons.prems(2) by simp
  next
    case (DebugInfoBlockController i)
    then show ?thesis using Cons.IH[OF Cons.prems(1)] Cons.prems(2) by simp
  qed
qed

subsection \<open>What the setters and end() leave alone\<close>

lemma map_lastSubStatus_update:
  "map lastSubStatus (cs[c := (cs ! c)\<lparr>lastState := s\<rparr>]) = map lastSubStatus cs"
proof (rule nth_equalityI)
  show "length (map lastSubStatus (cs[c := (cs ! c)\<lparr>lastState := s\<rparr>]))
      = length (map lastSubStatus cs)" by simp
next
  fix i assume "i < length (map lastSubStatus (cs[c := (cs ! c)\<lparr>lastState := s\<rparr>]))"
  then show "map lastSubStatus (cs[c := (cs ! c)\<lparr>lastState := s\<rparr>]) ! i
      = map lastSubStatus cs ! i"
    by (cases "c = i") simp_all
qed

lemma setState_frame:
  "stepControllers (snd (setState c s w)) = stepControllers w
   \<and> map lastSubStatus (statusControllers (snd (setState c s w)))
       = map lastSubStatus (statusControllers w)
   \<and> endedFlag (snd (setState c s w)) = endedFlag w
   \<and> (hasEnded w \<longrightarrow> handled (snd (setState c s w)) = handled w)"
  by (simp add: setState_def sendUpdate_def hasEnded_def Let_def map_lastSubStatus_update)

lemma setText_frame:
  "stepControllers (snd (setText c t w)) = stepControllers w
   \<and> map lastSubStatus (statusControllers (snd (setText c t w)))
       = map lastSubStatus (statusControllers w)
   \<and> endedFlag (snd (setText c t w)) = endedFlag w
   \<and> (hasEnded w \<longrightarrow> handled (snd (setText c t w)) = handled w)"
  by (simp add: setText_def sendUpdate_def hasEnded_def Let_def map_lastSubStatus_update)

lemma ensureEnded_frame:
  "stepControllers (snd (ensureEnded x w)) = stepControllers w
   \<and> map lastSubStatus (statusControllers (snd (ensureEnded x w)))
       = map lastSubStatus (statusControllers w)
   \<and> endedFlag (snd (ensureEnded x w)) = endedFlag w
   \<and> (hasEnded w \<longrightarrow> handled (snd (ensureEnded x w)) = handled w)"
  by (cases x) (simp_all add: Let_def setState_frame)

lemma endLoop_frame:
  "stepControllers (snd (endLoop l w)) = stepControllers w
   \<and> map lastSubStatus (statusControllers (snd (endLoop l w)))
       = map lastSubStatus (statusControllers w)
   \<and> endedFlag (snd (endLoop l w)) = endedFlag w
   \<and> (hasEnded w \<longrightarrow> handled (snd (endLoop l w)) = handled w)"
proof (induction l arbitrary: w)
  case Nil
  then show ?case by simp
next
  case (Cons x rest)
  obtain r w1 where e: "ensureEnded x w = (r, w1)" by (cases "ensureEnded x w")
  have f: "stepControllers w1 = stepControllers w
   \<and> map lastSubStatus (statusControllers w1) = map lastSubStatus (statusControllers w)
   \<and> endedFlag w1 = endedFlag w
   \<and> (hasEnded w \<longrightarrow> handled w1 = handled w)"
    using ensureEnded_frame[of x w] e by simp
  show ?case
  proof (cases r)
    case (Inl err)
    then show ?thesis using e f by simp
  next
    case (Inr u)
    then show ?thesis using e f Cons.IH[of w1] by (simp add: hasEnded_def)
  qed
qed

lemma end'_frame:
  "stepControllers (snd (end' w)) = stepControllers w
   \<and> map lastSubStatus (statusControllers (snd (end' w)))
       = map lastSubStatus (statusControllers w)
   \<and> (hasEnded w \<longrightarrow> handled (snd (end' w)) = handled w)"
  using endLoop_frame[of "stepControllers w" w]
  by (cases "endLoop (stepControllers w) w"; cases "fst (endLoop (stepControllers w) w)")
     (simp_all add: end'_def)

text \<open>After \<^verbatim>\<open>end()\<close> the flag is set, whether the call returned or threw.\<close>

lemma ensureEnded_Inl: "fst (ensureEnded x w) = Inl e \<Longrightarrow> hasEnded w"
  by (cases x) (auto simp: Let_def setState_def sendUpdate_def hasEnded_def split: if_splits)

lemma endLoop_Inl: "fst (endLoop l w) = Inl e \<Longrightarrow> hasEnded w"
proof (induction l arbitrary: w)
  case Nil
  then show ?case by simp
next
  case (Cons x rest)
  obtain r w1 where e: "ensureEnded x w = (r, w1)" by (cases "ensureEnded x w")
  show ?case
  proof (cases r)
    case (Inl err)
    then show ?thesis using e ensureEnded_Inl[of x w err] by simp
  next
    case (Inr u)
    then have "hasEnded w1" using Cons e by simp
    moreover have "endedFlag w1 = endedFlag w" using ensureEnded_frame[of x w] e by simp
    ultimately show ?thesis by (simp add: hasEnded_def)
  qed
qed

lemma hasEnded_end': "hasEnded (snd (end' w))"
proof (cases "endLoop (stepControllers w) w")
  case (Pair r w1)
  show ?thesis
  proof (cases r)
    case (Inl err)
    then have "hasEnded w" using endLoop_Inl[of "stepControllers w" w err] Pair by simp
    moreover have "endedFlag w1 = endedFlag w"
      using endLoop_frame[of "stepControllers w" w] Pair by simp
    ultimately show ?thesis using Pair Inl by (simp add: end'_def hasEnded_def)
  next
    case (Inr u)
    then show ?thesis using Pair by (simp add: end'_def hasEnded_def)
  qed
qed

subsection \<open>The walk along the last sub-statuses returns\<close>

lemma wellFormed_iff:
  "wellFormed w \<longleftrightarrow>
     (\<forall>c < length (statusControllers w).
          c \<le> lastSubStatus (statusControllers w ! c)
        \<and> lastSubStatus (statusControllers w ! c) < length (statusControllers w))
   \<and> (\<forall>c. StatusController c \<in> set (stepControllers w) \<longrightarrow> c < length (statusControllers w))"
proof -
  have "(\<forall>r \<in> set (stepControllers w).
          case r of StatusController c \<Rightarrow> c < length (statusControllers w) | _ \<Rightarrow> True)
      \<longleftrightarrow> (\<forall>c. StatusController c \<in> set (stepControllers w) \<longrightarrow> c < length (statusControllers w))"
    by (auto split: PredictionStepController.splits)
  moreover have "(\<forall>c \<in> set [0 ..< length (statusControllers w)].
          c \<le> lastSubStatus (statusControllers w ! c)
        \<and> lastSubStatus (statusControllers w ! c) < length (statusControllers w))
      \<longleftrightarrow> (\<forall>c < length (statusControllers w).
          c \<le> lastSubStatus (statusControllers w ! c)
        \<and> lastSubStatus (statusControllers w ! c) < length (statusControllers w))"
    by auto
  ultimately show ?thesis unfolding wellFormed_def by blast
qed

lemma lastSubStatusWalk_returns:
  assumes ok: "\<forall>c < length cs. c \<le> lastSubStatus (cs ! c) \<and> lastSubStatus (cs ! c) < length cs"
      and cur: "cur < length cs"
  shows "\<exists>r k. lastSubStatusWalk cs cur = Some r \<and> r < length cs
             \<and> lastSubStatus (cs ! r) = r
             \<and> r = ((\<lambda>x. lastSubStatus (cs ! x)) ^^ k) cur"
  using cur
proof (induction "length cs - cur" arbitrary: cur rule: less_induct)
  case less
  show ?case
  proof (cases "cur = lastSubStatus (cs ! cur)")
    case True
    then have "lastSubStatusWalk cs cur = Some cur"
      by (subst lastSubStatusWalk.simps) simp
    moreover have "cur = ((\<lambda>x. lastSubStatus (cs ! x)) ^^ 0) cur" by simp
    ultimately show ?thesis using True less.prems by metis
  next
    case False
    define nxt where "nxt = lastSubStatus (cs ! cur)"
    have n: "cur < nxt" "nxt < length cs"
      using ok less.prems False by (auto simp: nxt_def le_neq_implies_less)
    then have "length cs - nxt < length cs - cur" by arith
    from less.hyps[OF this n(2)]
    obtain r k where r: "lastSubStatusWalk cs nxt = Some r" "r < length cs"
        "lastSubStatus (cs ! r) = r" "r = ((\<lambda>x. lastSubStatus (cs ! x)) ^^ k) nxt"
      by blast
    have "lastSubStatusWalk cs cur = lastSubStatusWalk cs nxt"
      using False by (subst lastSubStatusWalk.simps) (simp add: nxt_def)
    moreover have "r = ((\<lambda>x. lastSubStatus (cs ! x)) ^^ (Suc k)) cur"
      using r(4) by (simp only: funpow_Suc_right o_apply nxt_def)
    ultimately show ?thesis using r by metis
  qed
qed

subsection \<open>addSubStatus\<close>

lemma addSubStatus_live:
  assumes wf: "wellFormed w" and c: "c < length (statusControllers w)" and live: "\<not> hasEnded w"
  shows "\<exists>r k. r < length (statusControllers w)
           \<and> lastSubStatus (statusControllers w ! r) = r
           \<and> r = ((\<lambda>x. lastSubStatus (statusControllers w ! x)) ^^ Suc k) c
           \<and> addSubStatus now rnd c s w =
               Some (Inr (length (statusControllers w)),
                 w\<lparr>handled := handled w @
                      [StatusCreate (createId now rnd) s
                         (Some (AfterId (id' (statusControllers w ! r))))
                         (Some (indentation (statusControllers w ! c) + 1))],
                   statusControllers :=
                     (statusControllers w @
                        [\<lparr>id' = createId now rnd,
                          indentation = indentation (statusControllers w ! c) + 1,
                          lastSubStatus = length (statusControllers w),
                          lastState = s\<rparr>])
                     [c := (statusControllers w ! c)
                             \<lparr>lastSubStatus := length (statusControllers w)\<rparr>]\<rparr>)"
proof -
  let ?cs = "statusControllers w"
  have ok: "\<forall>c < length ?cs. c \<le> lastSubStatus (?cs ! c) \<and> lastSubStatus (?cs ! c) < length ?cs"
    using wf by (simp add: wellFormed_iff)
  then have start: "lastSubStatus (?cs ! c) < length ?cs" using c by simp
  from lastSubStatusWalk_returns[OF ok start]
  obtain r k where r: "lastSubStatusWalk ?cs (lastSubStatus (?cs ! c)) = Some r"
      "r < length ?cs" "lastSubStatus (?cs ! r) = r"
      "r = ((\<lambda>x. lastSubStatus (?cs ! x)) ^^ k) (lastSubStatus (?cs ! c))"
    by blast
  have k: "r = ((\<lambda>x. lastSubStatus (?cs ! x)) ^^ Suc k) c"
    using r(4) by (simp only: funpow_Suc_right o_apply)
  have g: "getNestedLastSubStatusBlockId c w = Some (id' (?cs ! r))"
    by (simp add: getNestedLastSubStatusBlockId_def r(1))
  have "addSubStatus now rnd c s w =
               Some (Inr (length ?cs),
                 w\<lparr>handled := handled w @
                      [StatusCreate (createId now rnd) s
                         (Some (AfterId (id' (?cs ! r))))
                         (Some (indentation (?cs ! c) + 1))],
                   statusControllers :=
                     (?cs @
                        [\<lparr>id' = createId now rnd,
                          indentation = indentation (?cs ! c) + 1,
                          lastSubStatus = length ?cs,
                          lastState = s\<rparr>])
                     [c := (?cs ! c)\<lparr>lastSubStatus := length ?cs\<rparr>]\<rparr>)"
    using live by (simp add: addSubStatus_def g sendUpdate_def Let_def)
  then show ?thesis using r(2,3) k by blast
qed

lemma addSubStatus_ended:
  assumes wf: "wellFormed w" and c: "c < length (statusControllers w)" and ended: "hasEnded w"
  shows "addSubStatus now rnd c s w = Some (Inl (Error ''Prediction process has ended.''), w)"
proof -
  let ?cs = "statusControllers w"
  have ok: "\<forall>c < length ?cs. c \<le> lastSubStatus (?cs ! c) \<and> lastSubStatus (?cs ! c) < length ?cs"
    using wf by (simp add: wellFormed_iff)
  then have start: "lastSubStatus (?cs ! c) < length ?cs" using c by simp
  from lastSubStatusWalk_returns[OF ok start]
  obtain r where "lastSubStatusWalk ?cs (lastSubStatus (?cs ! c)) = Some r" by blast
  then have "getNestedLastSubStatusBlockId c w = Some (id' (?cs ! r))"
    by (simp add: getNestedLastSubStatusBlockId_def)
  then show ?thesis using ended by (simp add: addSubStatus_def sendUpdate_def Let_def)
qed

lemma addSubStatus_wellFormed:
  assumes wf: "wellFormed w" and c: "c < length (statusControllers w)"
      and a: "addSubStatus now rnd c s w = Some (res, w1)"
  shows "wellFormed w1"
proof (cases "hasEnded w")
  case True
  then show ?thesis using addSubStatus_ended[OF wf c True, of now rnd s] a wf by simp
next
  case False
  from addSubStatus_live[OF wf c False, of now rnd s]
  obtain r where "addSubStatus now rnd c s w =
               Some (Inr (length (statusControllers w)),
                 w\<lparr>handled := handled w @
                      [StatusCreate (createId now rnd) s
                         (Some (AfterId (id' (statusControllers w ! r))))
                         (Some (indentation (statusControllers w ! c) + 1))],
                   statusControllers :=
                     (statusControllers w @
                        [\<lparr>id' = createId now rnd,
                          indentation = indentation (statusControllers w ! c) + 1,
                          lastSubStatus = length (statusControllers w),
                          lastState = s\<rparr>])
                     [c := (statusControllers w ! c)
                             \<lparr>lastSubStatus := length (statusControllers w)\<rparr>]\<rparr>)"
    by blast
  then have w1: "w1 = w\<lparr>handled := handled w @
                      [StatusCreate (createId now rnd) s
                         (Some (AfterId (id' (statusControllers w ! r))))
                         (Some (indentation (statusControllers w ! c) + 1))],
                   statusControllers :=
                     (statusControllers w @
                        [\<lparr>id' = createId now rnd,
                          indentation = indentation (statusControllers w ! c) + 1,
                          lastSubStatus = length (statusControllers w),
                          lastState = s\<rparr>])
                     [c := (statusControllers w ! c)
                             \<lparr>lastSubStatus := length (statusControllers w)\<rparr>]\<rparr>"
    using a by simp
  show ?thesis
    using wf c
    by (auto simp: wellFormed_iff w1 nth_list_update nth_append less_Suc_eq)
qed

text \<open>
  C5. As amended: on a controller that has not ended yet, \<^verbatim>\<open>end()\<close> returns normally and
  marks the controller ended. Every status step registered by \<^verbatim>\<open>createStatus\<close> whose status
  is waiting or loading becomes canceled with its last text kept (identity, indentation
  and last sub-status untouched); every other registered status step, a done one in
  particular, is left as it was. The hooks of citation blocks and debug info blocks
  return without changing anything, and the list of step controllers is the same after
  the call. When no controller is registered twice, the coprocessor receives exactly one
  \<^verbatim>\<open>status.update\<close> per canceled step, in registration order.
\<close>

theorem end_cancels_open_steps:
  assumes "\<not> hasEnded w"
      and "\<forall>c \<in> set (statusRefs (stepControllers w)). c < length (statusControllers w)"
  shows "fst (end' w) = Inr ()
       \<and> hasEnded (snd (end' w))
       \<and> stepControllers (snd (end' w)) = stepControllers w
       \<and> (\<forall>c \<in> set (statusRefs (stepControllers w)).
            (status (lastState (statusControllers w ! c)) \<in> {''waiting'', ''loading''} \<longrightarrow>
               statusControllers (snd (end' w)) ! c =
                 (statusControllers w ! c)
                   \<lparr>lastState := \<lparr>status = ''canceled'',
                                  text' = text' (lastState (statusControllers w ! c))\<rparr>\<rparr>)
          \<and> (status (lastState (statusControllers w ! c)) \<notin> {''waiting'', ''loading''} \<longrightarrow>
               statusControllers (snd (end' w)) ! c = statusControllers w ! c)
          \<and> (status (lastState (statusControllers w ! c)) = ''done'' \<longrightarrow>
               lastState (statusControllers (snd (end' w)) ! c)
                 = lastState (statusControllers w ! c)))
       \<and> (\<forall>i. ensureEnded (CitationBlockController i) w = (Inr (), w)
              \<and> ensureEnded (DebugInfoBlockController i) w = (Inr (), w))
       \<and> (distinct (stepControllers w) \<longrightarrow>
            handled (snd (end' w)) = handled w @
              map (\<lambda>c. StatusUpdate (id' (statusControllers w ! c))
                          \<lparr>status = ''canceled'',
                           text' = text' (lastState (statusControllers w ! c))\<rparr>)
                  (filter (\<lambda>c. status (lastState (statusControllers w ! c))
                                 \<in> {''waiting'', ''loading''})
                          (statusRefs (stepControllers w))))"
proof -
  have reg: "\<forall>c. StatusController c \<in> set (stepControllers w) \<longrightarrow> c < length (statusControllers w)"
    using assms(2) by (simp add: statusRefs_set)
  note L = endLoop_live[OF assms(1) reg]
  obtain r w1 where lw: "endLoop (stepControllers w) w = (r, w1)" by (cases "endLoop (stepControllers w) w")
  have r: "r = Inr ()" using L lw by simp
  have e: "end' w = (Inr (), w1\<lparr>endedFlag := True\<rparr>)"
    by (simp add: end'_def lw r)
  have so: "\<And>k. stillOpen k \<longleftrightarrow> status (lastState k) \<in> {''waiting'', ''loading''}"
    by (auto simp: stillOpen_def)
  have c4: "\<forall>c \<in> set (statusRefs (stepControllers w)).
      statusControllers (snd (end' w)) ! c =
        (if stillOpen (statusControllers w ! c)
         then (statusControllers w ! c)\<lparr>lastState := canceledState (statusControllers w ! c)\<rparr>
         else statusControllers w ! c)"
    using L lw assms(2) by (simp add: e statusRefs_set)
  have c6: "distinct (stepControllers w) \<longrightarrow>
            handled (snd (end' w)) = handled w @
              map (\<lambda>c. StatusUpdate (id' (statusControllers w ! c))
                          (canceledState (statusControllers w ! c)))
                  (filter (\<lambda>c. stillOpen (statusControllers w ! c)) (statusRefs (stepControllers w)))"
    using L lw by (simp add: e)
  show ?thesis
    using L lw c4 c6
    by (simp add: e hasEnded_def so canceledState_def)
qed

theorem end_cancels_open_steps_witness:
  "fst (end' exampleController) = Inr ()
   \<and> hasEnded (snd (end' exampleController))
   \<and> stepControllers (snd (end' exampleController))
       = [StatusController 0, StatusController 1, StatusController 2,
          CitationBlockController ''4-0.4'', DebugInfoBlockController ''5-0.5'']
   \<and> map lastState (statusControllers (snd (end' exampleController)))
       = [\<lparr>status = ''canceled'', text' = ''a''\<rparr>, \<lparr>status = ''canceled'', text' = ''b''\<rparr>,
          \<lparr>status = ''done'', text' = ''c''\<rparr>]"
proof -
  have h1: "\<not> hasEnded exampleController" by code_simp
  have h2: "\<forall>c \<in> set (statusRefs (stepControllers exampleController)).
              c < length (statusControllers exampleController)" by code_simp
  have v: "map lastState (statusControllers (snd (end' exampleController)))
       = [\<lparr>status = ''canceled'', text' = ''a''\<rparr>, \<lparr>status = ''canceled'', text' = ''b''\<rparr>,
          \<lparr>status = ''done'', text' = ''c''\<rparr>]" by code_simp
  have s: "stepControllers exampleController
       = [StatusController 0, StatusController 1, StatusController 2,
          CitationBlockController ''4-0.4'', DebugInfoBlockController ''5-0.5'']" by code_simp
  show ?thesis
    using end_cancels_open_steps[OF h1 h2] v s by simp
qed

text \<open>
  C5 as stated, for every controller, fails on one that has ended already. The run
  \<open>reopenedCalls\<close> creates a waiting, a loading and a done step with \<^verbatim>\<open>createStatus\<close>, ends
  the controller, and then calls \<^verbatim>\<open>setState\<close> with a loading state on the first two steps:
  both calls throw, both steps record the state. The controller then holds registered
  steps that are loading, loading and done. \<^verbatim>\<open>end()\<close> on it records the first step as
  canceled, throws when that step's update is sent, and leaves the second step loading.
\<close>

theorem end_on_ended_controller_counterexample:
  "hasEnded reopenedController
   \<and> stepControllers reopenedController
       = [StatusController 0, StatusController 1, StatusController 2,
          CitationBlockController ''4-0.4'', DebugInfoBlockController ''5-0.5'']
   \<and> map lastState (statusControllers reopenedController)
       = [\<lparr>status = ''loading'', text' = ''a''\<rparr>, \<lparr>status = ''loading'', text' = ''b''\<rparr>,
          \<lparr>status = ''done'', text' = ''c''\<rparr>]
   \<and> fst (end' reopenedController) = Inl (Error ''Prediction process has ended.'')
   \<and> handled (snd (end' reopenedController)) = handled reopenedController
   \<and> map lastState (statusControllers (snd (end' reopenedController)))
       = [\<lparr>status = ''canceled'', text' = ''a''\<rparr>, \<lparr>status = ''loading'', text' = ''b''\<rparr>,
          \<lparr>status = ''done'', text' = ''c''\<rparr>]
   \<and> status (lastState (statusControllers (snd (end' reopenedController)) ! 1))
       \<noteq> ''canceled''"
  by code_simp

section \<open>Setters on an ended controller\<close>

text \<open>
  C10. On a status step whose owning controller has ended, \<^verbatim>\<open>setState(s)\<close> throws
  "Prediction process has ended." and hands nothing to the coprocessor, yet the step's
  recorded last state is \<open>s\<close> after the throw; \<^verbatim>\<open>setText(t)\<close> throws the same error, emits
  nothing, and the recorded text is \<open>t\<close> after the throw. Nothing else of the controller
  changes.
\<close>

theorem setters_after_end_throw_but_overwrite:
  assumes "hasEnded w" and "c < length (statusControllers w)"
  shows "fst (setState c s w) = Inl (Error ''Prediction process has ended.'')
       \<and> handled (snd (setState c s w)) = handled w
       \<and> lastState (statusControllers (snd (setState c s w)) ! c) = s
       \<and> snd (setState c s w)
           = w\<lparr>statusControllers :=
                 (statusControllers w)[c := (statusControllers w ! c)\<lparr>lastState := s\<rparr>]\<rparr>
       \<and> fst (setText c t w) = Inl (Error ''Prediction process has ended.'')
       \<and> handled (snd (setText c t w)) = handled w
       \<and> text' (lastState (statusControllers (snd (setText c t w)) ! c)) = t
       \<and> status (lastState (statusControllers (snd (setText c t w)) ! c))
           = status (lastState (statusControllers w ! c))"
  using assms by (simp add: setState_def setText_def sendUpdate_def hasEnded_def Let_def)

theorem setters_after_end_throw_but_overwrite_witness:
  "hasEnded (snd (end' exampleController))
   \<and> lastState (statusControllers (snd (end' exampleController)) ! 1)
       = \<lparr>status = ''canceled'', text' = ''b''\<rparr>
   \<and> fst (setState 1 \<lparr>status = ''loading'', text' = ''again''\<rparr> (snd (end' exampleController)))
       = Inl (Error ''Prediction process has ended.'')
   \<and> handled (snd (setState 1 \<lparr>status = ''loading'', text' = ''again''\<rparr>
                    (snd (end' exampleController))))
       = handled (snd (end' exampleController))
   \<and> lastState (statusControllers
         (snd (setState 1 \<lparr>status = ''loading'', text' = ''again''\<rparr>
                 (snd (end' exampleController)))) ! 1)
       = \<lparr>status = ''loading'', text' = ''again''\<rparr>
   \<and> fst (setText 1 ''late'' (snd (end' exampleController)))
       = Inl (Error ''Prediction process has ended.'')
   \<and> lastState (statusControllers (snd (setText 1 ''late'' (snd (end' exampleController)))) ! 1)
       = \<lparr>status = ''canceled'', text' = ''late''\<rparr>"
proof -
  have h1: "hasEnded (snd (end' exampleController))" by code_simp
  have h2: "1 < length (statusControllers (snd (end' exampleController)))" by code_simp
  have b: "lastState (statusControllers (snd (end' exampleController)) ! 1)
       = \<lparr>status = ''canceled'', text' = ''b''\<rparr>" by code_simp
  have t: "lastState (statusControllers (snd (setText 1 ''late'' (snd (end' exampleController)))) ! 1)
       = \<lparr>status = ''canceled'', text' = ''late''\<rparr>" by code_simp
  show ?thesis
    using setters_after_end_throw_but_overwrite[OF h1 h2,
            of "\<lparr>status = ''loading'', text' = ''again''\<rparr>" "''late''"] h1 b t
    by blast
qed

section \<open>Sub-statuses and end()\<close>

text \<open>
  C3. The run \<open>subStatusCalls\<close>: \<^verbatim>\<open>createStatus\<close> of a loading step, \<^verbatim>\<open>addSubStatus\<close> of a
  loading child on it, then \<^verbatim>\<open>end()\<close>. The child is not among \<^verbatim>\<open>stepControllers\<close>, so
  \<^verbatim>\<open>end()\<close> cancels the parent only: the child's last state is still loading and no
  \<^verbatim>\<open>status.update\<close> is sent for it, although the controller is ended.
\<close>

theorem end_skips_sub_status:
  "run subStatusCalls newController =
     Some ([''1-0.1'', ''2-0.2''],
       \<lparr>endedFlag = True,
        stepControllers = [StatusController 0],
        handled =
          [StatusCreate ''1-0.1'' \<lparr>status = ''loading'', text' = ''parent''\<rparr> None None,
           StatusCreate ''2-0.2'' \<lparr>status = ''loading'', text' = ''child''\<rparr>
             (Some (AfterId ''1-0.1'')) (Some 1),
           StatusUpdate ''1-0.1'' \<lparr>status = ''canceled'', text' = ''parent''\<rparr>],
        statusControllers =
          [\<lparr>id' = ''1-0.1'', indentation = 0, lastSubStatus = 1,
            lastState = \<lparr>status = ''canceled'', text' = ''parent''\<rparr>\<rparr>,
           \<lparr>id' = ''2-0.2'', indentation = 1, lastSubStatus = 1,
            lastState = \<lparr>status = ''loading'', text' = ''child''\<rparr>\<rparr>]\<rparr>)"
  by code_simp

section \<open>Where addSubStatus places the new step\<close>

lemma lastSubStatusWalk_self:
  "lastSubStatus (cs ! n) = n \<Longrightarrow> lastSubStatusWalk cs n = Some n"
  by (subst lastSubStatusWalk.simps) simp

text \<open>
  C6. On a status step \<open>c\<close> of a controller that has not ended, \<^verbatim>\<open>addSubStatus\<close> returns and
  sends exactly one update: a \<^verbatim>\<open>status.create\<close> with the new identity and the given state,
  whose location is \<^verbatim>\<open>{type: "afterId", id}\<close> with \<open>id\<close> the identity of the step \<open>after\<close> that
  the chain of \<^verbatim>\<open>lastSubStatus\<close> references from \<open>c\<close> reaches as its fixed point, and whose
  indentation is that of \<open>c\<close> plus one; the new step has that indentation too. A second
  \<^verbatim>\<open>addSubStatus\<close> on \<open>c\<close> right afterwards is located after the identity of the first child.
\<close>

theorem addSubStatus_position:
  assumes "wellFormed w" and "c < length (statusControllers w)" and "\<not> hasEnded w"
  shows "\<exists>after k n w1.
      after = ((\<lambda>x. lastSubStatus (statusControllers w ! x)) ^^ Suc k) c
    \<and> lastSubStatus (statusControllers w ! after) = after
    \<and> addSubStatus now rnd c s w = Some (Inr n, w1)
    \<and> handled w1 = handled w @
          [StatusCreate (createId now rnd) s
             (Some (AfterId (id' (statusControllers w ! after))))
             (Some (indentation (statusControllers w ! c) + 1))]
    \<and> id' (statusControllers w1 ! n) = createId now rnd
    \<and> indentation (statusControllers w1 ! n) = indentation (statusControllers w ! c) + 1
    \<and> (\<forall>now2 rnd2 s2. \<exists>n2 w2.
          addSubStatus now2 rnd2 c s2 w1 = Some (Inr n2, w2)
        \<and> handled w2 = handled w1 @
            [StatusCreate (createId now2 rnd2) s2
               (Some (AfterId (createId now rnd)))
               (Some (indentation (statusControllers w ! c) + 1))])"
proof -
  let ?cs = "statusControllers w"
  let ?n = "length ?cs"
  let ?new = "\<lparr>id' = createId now rnd, indentation = indentation (?cs ! c) + 1,
               lastSubStatus = ?n, lastState = s\<rparr>"
  from addSubStatus_live[OF assms, of now rnd s]
  obtain r k where r: "r < ?n" "lastSubStatus (?cs ! r) = r"
      "r = ((\<lambda>x. lastSubStatus (?cs ! x)) ^^ Suc k) c"
      "addSubStatus now rnd c s w =
         Some (Inr ?n,
           w\<lparr>handled := handled w @
                [StatusCreate (createId now rnd) s (Some (AfterId (id' (?cs ! r))))
                   (Some (indentation (?cs ! c) + 1))],
             statusControllers := (?cs @ [?new])[c := (?cs ! c)\<lparr>lastSubStatus := ?n\<rparr>]\<rparr>)"
    by blast
  define w1 where "w1 = w\<lparr>handled := handled w @
                [StatusCreate (createId now rnd) s (Some (AfterId (id' (?cs ! r))))
                   (Some (indentation (?cs ! c) + 1))],
             statusControllers := (?cs @ [?new])[c := (?cs ! c)\<lparr>lastSubStatus := ?n\<rparr>]\<rparr>"
  have cs1: "statusControllers w1 = (?cs @ [?new])[c := (?cs ! c)\<lparr>lastSubStatus := ?n\<rparr>]"
    by (simp add: w1_def)
  have atn: "statusControllers w1 ! ?n = ?new"
    using assms(2) by (simp add: cs1)
  have atc: "statusControllers w1 ! c = (?cs ! c)\<lparr>lastSubStatus := ?n\<rparr>"
    using assms(2) by (simp add: cs1 nth_append)
  have live1: "\<not> hasEnded w1" using assms(3) by (simp add: w1_def hasEnded_def)
  have h1: "handled w1 = handled w @
                [StatusCreate (createId now rnd) s (Some (AfterId (id' (?cs ! r))))
                   (Some (indentation (?cs ! c) + 1))]"
    by (simp add: w1_def)
  have walk1: "lastSubStatusWalk (statusControllers w1) (lastSubStatus (statusControllers w1 ! c))
      = Some ?n"
    using lastSubStatusWalk_self[of "statusControllers w1" ?n] by (simp add: atc atn)
  have g1: "getNestedLastSubStatusBlockId c w1 = Some (createId now rnd)"
    by (simp add: getNestedLastSubStatusBlockId_def walk1 atn)
  have second: "\<forall>now2 rnd2 s2. \<exists>n2 w2.
          addSubStatus now2 rnd2 c s2 w1 = Some (Inr n2, w2)
        \<and> handled w2 = handled w1 @
            [StatusCreate (createId now2 rnd2) s2
               (Some (AfterId (createId now rnd)))
               (Some (indentation (?cs ! c) + 1))]"
    using live1 by (simp add: addSubStatus_def g1 sendUpdate_def Let_def atc)
  have "addSubStatus now rnd c s w = Some (Inr ?n, w1)" using r(4) by (simp add: w1_def)
  then show ?thesis
    using r(2,3) h1 atn second by (intro exI[of _ r] exI[of _ k] exI[of _ ?n] exI[of _ w1]) simp
qed

theorem addSubStatus_position_witness:
  "wellFormed nestedController \<and> \<not> hasEnded nestedController
   \<and> map id' (statusControllers nestedController) = [''1-0.1'', ''2-0.2'', ''3-0.3'']
   \<and> map lastSubStatus (statusControllers nestedController) = [1, 2, 2]
   \<and> (\<exists>n w1. addSubStatus 4 ''0.4'' 0 \<lparr>status = ''waiting'', text' = ''second child''\<rparr>
                 nestedController = Some (Inr n, w1)
         \<and> handled w1 = handled nestedController @
              [StatusCreate ''4-0.4'' \<lparr>status = ''waiting'', text' = ''second child''\<rparr>
                 (Some (AfterId ''3-0.3'')) (Some 1)])"
proof -
  let ?f = "\<lambda>x. lastSubStatus (statusControllers nestedController ! x)"
  have h1: "wellFormed nestedController" by code_simp
  have h2: "0 < length (statusControllers nestedController)" by code_simp
  have h3: "\<not> hasEnded nestedController" by code_simp
  have ids: "map id' (statusControllers nestedController) = [''1-0.1'', ''2-0.2'', ''3-0.3'']"
    by code_simp
  have subs: "map lastSubStatus (statusControllers nestedController) = [1, 2, 2]"
    by code_simp
  have f0: "?f 0 = 1" by code_simp
  have f1: "?f 1 = 2" by code_simp
  have f2: "?f 2 = 2" by code_simp
  have id2: "id' (statusControllers nestedController ! 2) = ''3-0.3''" by code_simp
  have ind: "indentation (statusControllers nestedController ! 0) = 0" by code_simp
  have c: "createId 4 ''0.4'' = ''4-0.4''" by code_simp
  have chain: "(?f ^^ Suc k) 0 = 1 \<or> (?f ^^ Suc k) 0 = 2" for k
  proof (induction k)
    case 0
    then show ?case using f0 by simp
  next
    case (Suc k)
    then show ?case using f1 f2 by auto
  qed
  from addSubStatus_position[OF h1 h2 h3, of 4 "''0.4''"
         "\<lparr>status = ''waiting'', text' = ''second child''\<rparr>"]
  obtain after k n w1 where a:
      "after = (?f ^^ Suc k) 0"
      "?f after = after"
      "addSubStatus 4 ''0.4'' 0 \<lparr>status = ''waiting'', text' = ''second child''\<rparr>
          nestedController = Some (Inr n, w1)"
      "handled w1 = handled nestedController @
          [StatusCreate (createId 4 ''0.4'') \<lparr>status = ''waiting'', text' = ''second child''\<rparr>
             (Some (AfterId (id' (statusControllers nestedController ! after))))
             (Some (indentation (statusControllers nestedController ! 0) + 1))]"
    by blast
  have "after = 2" using chain[of k] a(1,2) f1 by auto
  then have "handled w1 = handled nestedController @
              [StatusCreate ''4-0.4'' \<lparr>status = ''waiting'', text' = ''second child''\<rparr>
                 (Some (AfterId ''3-0.3'')) (Some 1)]"
    using a(4) id2 ind c by simp
  then show ?thesis using h1 h3 ids subs a(3) by blast
qed

section \<open>Identities\<close>

lemma digitVal_digit: "d < 10 \<Longrightarrow> digitVal (digit d) = d"
proof -
  assume "d < 10"
  then have "d \<in> {0, 1, 2, 3, 4, 5, 6, 7, 8, 9}" by auto
  then show ?thesis by (auto simp: digit_def digitVal_def)
qed

lemma digit_not_dash: "d < 10 \<Longrightarrow> digit d \<noteq> CHR ''-''"
proof -
  assume "d < 10"
  then have "d \<in> {0, 1, 2, 3, 4, 5, 6, 7, 8, 9}" by auto
  then show ?thesis by (auto simp: digit_def)
qed

lemma readNat_snoc: "readNat (s @ [ch]) = 10 * readNat s + digitVal ch"
  by (simp add: readNat_def)

lemma readNat_showNat: "readNat (showNat n) = n"
proof (induction n rule: showNat.induct)
  case (1 n)
  show ?case
  proof (cases "n < 10")
    case True
    then show ?thesis
      by (subst showNat.simps) (simp add: readNat_def digitVal_digit)
  next
    case False
    then have "readNat (showNat (n div 10)) = n div 10" using 1 by simp
    then show ?thesis using False
      by (subst showNat.simps) (simp add: readNat_snoc digitVal_digit)
  qed
qed

lemma showNat_inj: "showNat a = showNat b \<Longrightarrow> a = b"
  by (metis readNat_showNat)

lemma showNat_no_dash: "CHR ''-'' \<notin> set (showNat n)"
proof (induction n rule: showNat.induct)
  case (1 n)
  show ?case
  proof (cases "n < 10")
    case True
    then show ?thesis using digit_not_dash[of n]
      by (subst showNat.simps) auto
  next
    case False
    then have "CHR ''-'' \<notin> set (showNat (n div 10))" using 1 by simp
    then show ?thesis using False digit_not_dash[of "n mod 10"]
      by (subst showNat.simps) auto
  qed
qed

lemma split_at_first:
  assumes "xs @ a # ys = xs' @ a # ys'" and "a \<notin> set xs" and "a \<notin> set xs'"
  shows "xs = xs' \<and> ys = ys'"
  using assms
proof (induction xs arbitrary: xs')
  case Nil
  then show ?case by (cases xs') auto
next
  case (Cons x xs)
  then show ?case by (cases xs') auto
qed

lemma createId_inj: "createId n r = createId n' r' \<Longrightarrow> n = n' \<and> r = r'"
proof -
  assume "createId n r = createId n' r'"
  then have "showNat n @ CHR ''-'' # r = showNat n' @ CHR ''-'' # r'"
    by (simp add: createId_def)
  from split_at_first[OF this showNat_no_dash showNat_no_dash]
  show ?thesis using showNat_inj by blast
qed

lemma inj_createId: "inj (case_prod createId)"
  by (auto simp: inj_on_def dest: createId_inj)

section \<open>Runs of calls\<close>

lemma wellFormed_cong:
  assumes "stepControllers w1 = stepControllers w"
      and "map lastSubStatus (statusControllers w1) = map lastSubStatus (statusControllers w)"
  shows "wellFormed w1 = wellFormed w"
proof -
  have len: "length (statusControllers w1) = length (statusControllers w)"
    using assms(2) by (metis length_map)
  have "\<And>c. c < length (statusControllers w) \<Longrightarrow>
      lastSubStatus (statusControllers w1 ! c) = lastSubStatus (statusControllers w ! c)"
    using assms(2) len by (metis nth_map)
  then show ?thesis using assms(1) len by (auto simp: wellFormed_iff)
qed

lemma createStatus_wellFormed:
  "wellFormed w \<Longrightarrow> wellFormed (snd (createStatus now rnd s w))"
  by (auto simp: createStatus_def sendUpdate_def Let_def wellFormed_iff nth_append less_Suc_eq)

lemma createCitationBlock_wellFormed:
  "wellFormed w \<Longrightarrow> wellFormed (snd (createCitationBlock now rnd t src w))"
  by (auto simp: createCitationBlock_def sendUpdate_def Let_def wellFormed_iff)

lemma createDebugInfoBlock_wellFormed:
  "wellFormed w \<Longrightarrow> wellFormed (snd (createDebugInfoBlock now rnd d w))"
  by (auto simp: createDebugInfoBlock_def sendUpdate_def Let_def wellFormed_iff)

lemma sendUpdate_wellFormed: "wellFormed w \<Longrightarrow> wellFormed (snd (sendUpdate u w))"
  by (auto simp: sendUpdate_def wellFormed_iff)

lemma exec_wellFormed:
  assumes "wellFormed w"
  shows "\<exists>ids w1. exec x w = Some (ids, w1) \<and> wellFormed w1"
proof (cases x)
  case (SendUpdate u)
  then show ?thesis using sendUpdate_wellFormed[OF assms] by simp
next
  case End
  then show ?thesis using wellFormed_cong[of "snd (end' w)" w] end'_frame[of w] assms by simp
next
  case (CreateStatus now rnd s)
  then show ?thesis using createStatus_wellFormed[OF assms, of now rnd s]
    by (cases "createStatus now rnd s w"; cases "fst (createStatus now rnd s w)") auto
next
  case (CreateCitationBlock now rnd t src)
  then show ?thesis using createCitationBlock_wellFormed[OF assms, of now rnd t src]
    by (cases "createCitationBlock now rnd t src w")
       (auto split: sum.splits PredictionStepController.splits)
next
  case (CreateDebugInfoBlock now rnd d)
  then show ?thesis using createDebugInfoBlock_wellFormed[OF assms, of now rnd d]
    by (cases "createDebugInfoBlock now rnd d w")
       (auto split: sum.splits PredictionStepController.splits)
next
  case (SetText c t)
  then show ?thesis using wellFormed_cong[of "snd (setText c t w)" w] setText_frame[of c t w] assms
    by simp
next
  case (SetState c s)
  then show ?thesis using wellFormed_cong[of "snd (setState c s w)" w] setState_frame[of c s w] assms
    by simp
next
  case (AddSubStatus now rnd c s)
  show ?thesis
  proof (cases "c < length (statusControllers w)")
    case False
    then show ?thesis using AddSubStatus assms by simp
  next
    case True
    have "\<exists>res w1. addSubStatus now rnd c s w = Some (res, w1)"
      using addSubStatus_live[OF assms True, of now rnd s]
            addSubStatus_ended[OF assms True, of now rnd s]
      by (cases "hasEnded w") blast+
    then obtain res w1 where a: "addSubStatus now rnd c s w = Some (res, w1)" by blast
    then have "wellFormed w1" using addSubStatus_wellFormed[OF assms True a] by simp
    then show ?thesis using AddSubStatus True a by (cases res) simp_all
  qed
qed

lemma run_wellFormed:
  "wellFormed w \<Longrightarrow> \<exists>ids w1. run xs w = Some (ids, w1) \<and> wellFormed w1"
proof (induction xs arbitrary: w)
  case Nil
  then show ?case by simp
next
  case (Cons x xs)
  from exec_wellFormed[OF Cons.prems, of x]
  obtain ids w1 where e: "exec x w = Some (ids, w1)" "wellFormed w1" by blast
  from Cons.IH[OF e(2)] obtain ids' w2 where "run xs w1 = Some (ids', w2)" "wellFormed w2"
    by blast
  then show ?case using e by simp
qed

lemma wellFormed_newController: "wellFormed newController"
  by (simp add: wellFormed_def newController_def)

text \<open>Every store that calls build from a new controller has the shape \<open>wellFormed\<close>.\<close>

lemma reachable_wellFormed:
  "run xs newController = Some (ids, w) \<Longrightarrow> wellFormed w"
  using run_wellFormed[OF wellFormed_newController, of xs] by auto

text \<open>\<^verbatim>\<open>addSubStatus\<close> registers nothing with the controller.\<close>

lemma addSubStatus_registers_nothing:
  "addSubStatus now rnd c s w = Some (res, w1) \<Longrightarrow> stepControllers w1 = stepControllers w"
  by (auto simp: addSubStatus_def sendUpdate_def Let_def split: option.splits if_splits)

subsection \<open>Once ended, always ended, and nothing more is handled\<close>

lemma addSubStatus_frame:
  assumes "addSubStatus now rnd c s w = Some (res, w1)" and "c < length (statusControllers w)"
  shows "endedFlag w1 = endedFlag w
       \<and> (hasEnded w \<longrightarrow> handled w1 = handled w \<and> (\<exists>e. res = Inl e))
       \<and> (\<forall>n. res = Inr n \<longrightarrow> id' (statusControllers w1 ! n) = createId now rnd)"
  using assms
  by (auto simp: addSubStatus_def sendUpdate_def Let_def hasEnded_def nth_append
           split: option.splits if_splits)

lemma exec_ended:
  assumes "hasEnded w" and "exec x w = Some (ids, w1)"
  shows "hasEnded w1 \<and> handled w1 = handled w \<and> ids = []"
proof (cases x)
  case (SendUpdate u)
  then show ?thesis using assms by (auto simp: sendUpdate_def)
next
  case End
  then show ?thesis using assms hasEnded_end'[of w] end'_frame[of w] by auto
next
  case (CreateStatus now rnd s)
  then show ?thesis using assms by (auto simp: createStatus_def sendUpdate_def Let_def)
next
  case (CreateCitationBlock now rnd t src)
  then show ?thesis using assms by (auto simp: createCitationBlock_def sendUpdate_def Let_def)
next
  case (CreateDebugInfoBlock now rnd d)
  then show ?thesis using assms by (auto simp: createDebugInfoBlock_def sendUpdate_def Let_def)
next
  case (SetText c t)
  then show ?thesis using assms setText_frame[of c t w]
    by (auto simp: hasEnded_def split: if_splits)
next
  case (SetState c s)
  then show ?thesis using assms setState_frame[of c s w]
    by (auto simp: hasEnded_def split: if_splits)
next
  case (AddSubStatus now rnd c s)
  show ?thesis
  proof (cases "c < length (statusControllers w)")
    case False
    then show ?thesis using AddSubStatus assms by simp
  next
    case True
    then obtain res where a: "addSubStatus now rnd c s w = Some (res, w1)"
      using AddSubStatus assms(2) by (auto split: option.splits sum.splits)
    from addSubStatus_frame[OF a True] assms(1) obtain e where
      "endedFlag w1 = endedFlag w" "handled w1 = handled w" "res = Inl e" by blast
    then show ?thesis using AddSubStatus True a assms by (simp add: hasEnded_def)
  qed
qed

lemma run_ended:
  "hasEnded w \<Longrightarrow> run xs w = Some (ids, w1)
     \<Longrightarrow> hasEnded w1 \<and> handled w1 = handled w \<and> ids = []"
proof (induction xs arbitrary: w ids)
  case Nil
  then show ?case by simp
next
  case (Cons x xs)
  from Cons.prems(2) obtain i0 w0 i1 where
    e: "exec x w = Some (i0, w0)" and r: "run xs w0 = Some (i1, w1)" and i: "ids = i0 @ i1"
    by (auto split: option.splits)
  from exec_ended[OF Cons.prems(1) e] have "hasEnded w0" "handled w0 = handled w" "i0 = []"
    by simp_all
  then show ?case using Cons.IH[OF _ r] i by simp
qed

section \<open>Updates after end()\<close>

text \<open>
  C4. Once \<^verbatim>\<open>end()\<close> has been called on a controller, whatever the state it was called in and
  whether it returned or threw, and whatever calls \<open>xs\<close> the client makes afterwards: the
  controller is ended, none of those calls has handed anything to the coprocessor, and
  \<^verbatim>\<open>sendUpdate\<close> throws "Prediction process has ended." and leaves the controller, the list
  of handled updates included, as it was. On every store the calls can build, the calls
  \<open>xs\<close> do return.
\<close>

theorem sendUpdate_after_end:
  "(\<forall>xs ids w1. run xs (snd (end' w)) = Some (ids, w1) \<longrightarrow>
        sendUpdate u w1 = (Inl (Error ''Prediction process has ended.''), w1)
      \<and> hasEnded w1
      \<and> handled w1 = handled (snd (end' w)))
   \<and> (wellFormed w \<longrightarrow> (\<forall>xs. \<exists>ids w1. run xs (snd (end' w)) = Some (ids, w1)))"
proof (intro conjI allI impI)
  fix xs ids w1
  assume r: "run xs (snd (end' w)) = Some (ids, w1)"
  from run_ended[OF hasEnded_end' r]
  show "hasEnded w1" and "handled w1 = handled (snd (end' w))" by simp_all
  then show "sendUpdate u w1 = (Inl (Error ''Prediction process has ended.''), w1)"
    by (simp add: sendUpdate_ended)
next
  fix xs
  assume "wellFormed w"
  then have "wellFormed (snd (end' w))"
    using wellFormed_cong[of "snd (end' w)" w] end'_frame[of w] by simp
  from run_wellFormed[OF this, of xs]
  show "\<exists>ids w1. run xs (snd (end' w)) = Some (ids, w1)" by blast
qed

theorem sendUpdate_after_end_witness:
  "(\<exists>ids w1. run lateCalls (snd (end' exampleController)) = Some (ids, w1)
       \<and> sendUpdate (DebugInfoBlockCreate ''8-0.8'' ''too late'') w1
           = (Inl (Error ''Prediction process has ended.''), w1)
       \<and> handled w1 = handled (snd (end' exampleController)))
   \<and> length (handled (snd (end' exampleController))) = 7"
proof -
  have wf: "wellFormed exampleController" by code_simp
  have n: "length (handled (snd (end' exampleController))) = 7" by code_simp
  from sendUpdate_after_end[of exampleController "DebugInfoBlockCreate ''8-0.8'' ''too late''"] wf
  obtain ids w1 where r: "run lateCalls (snd (end' exampleController)) = Some (ids, w1)"
    by blast
  with sendUpdate_after_end[of exampleController "DebugInfoBlockCreate ''8-0.8'' ''too late''"]
  have "sendUpdate (DebugInfoBlockCreate ''8-0.8'' ''too late'') w1
           = (Inl (Error ''Prediction process has ended.''), w1)
       \<and> handled w1 = handled (snd (end' exampleController))"
    by blast
  then show ?thesis using r n by blast
qed

section \<open>The identities a run generates\<close>

lemma createStatus_live:
  "\<not> hasEnded w \<Longrightarrow> createStatus now rnd s w =
     (Inr (length (statusControllers w)),
      w\<lparr>handled := handled w @ [StatusCreate (createId now rnd) s None None],
        statusControllers := statusControllers w @
          [\<lparr>id' = createId now rnd, indentation = 0,
            lastSubStatus = length (statusControllers w), lastState = s\<rparr>],
        stepControllers := stepControllers w @ [StatusController (length (statusControllers w))]\<rparr>)"
  by (simp add: createStatus_def sendUpdate_def Let_def)

lemma exec_ids:
  assumes "exec x w = Some (ids, w1)"
  shows "ids = [] \<or> ids = map (\<lambda>(now, rnd). createId now rnd) (draws x)"
proof (cases x)
  case (CreateStatus now rnd s)
  then show ?thesis using assms
    by (cases "hasEnded w") (auto simp: createStatus_live createStatus_def sendUpdate_def Let_def)
next
  case (CreateCitationBlock now rnd t src)
  then show ?thesis using assms
    by (auto simp: createCitationBlock_def sendUpdate_def Let_def split: if_splits)
next
  case (CreateDebugInfoBlock now rnd d)
  then show ?thesis using assms
    by (auto simp: createDebugInfoBlock_def sendUpdate_def Let_def split: if_splits)
next
  case (AddSubStatus now rnd c s)
  show ?thesis
  proof (cases "c < length (statusControllers w)")
    case False
    then show ?thesis using AddSubStatus assms by simp
  next
    case True
    then obtain res where a: "addSubStatus now rnd c s w = Some (res, w1)"
      using AddSubStatus assms by (auto split: option.splits sum.splits)
    show ?thesis using addSubStatus_frame[OF a True] AddSubStatus True a assms
      by (cases res) auto
  qed
qed (use assms in \<open>auto split: if_splits\<close>)

lemma run_ids:
  "run xs w = Some (ids, w1) \<Longrightarrow>
     set ids \<subseteq> (\<lambda>(now, rnd). createId now rnd) ` set (allDraws xs)
   \<and> (distinct (allDraws xs) \<longrightarrow> distinct ids)"
proof (induction xs arbitrary: w ids)
  case Nil
  then show ?case by (simp add: allDraws_def)
next
  case (Cons x xs)
  let ?f = "\<lambda>(now, rnd). createId now rnd"
  from Cons.prems obtain i0 w0 i1 where
    e: "exec x w = Some (i0, w0)" and r: "run xs w0 = Some (i1, w1)" and i: "ids = i0 @ i1"
    by (auto split: option.splits)
  have ad: "allDraws (x # xs) = draws x @ allDraws xs" by (simp add: allDraws_def)
  from Cons.IH[OF r] have ih: "set i1 \<subseteq> ?f ` set (allDraws xs)"
    "distinct (allDraws xs) \<longrightarrow> distinct i1" by simp_all
  from exec_ids[OF e] have i0: "i0 = [] \<or> i0 = map ?f (draws x)" .
  have sub: "set ids \<subseteq> ?f ` set (allDraws (x # xs))"
    using i0 ih(1) i ad by auto
  have dis: "distinct ids" if d: "distinct (allDraws (x # xs))"
  proof -
    have d1: "distinct (draws x)" "distinct (allDraws xs)"
      "set (draws x) \<inter> set (allDraws xs) = {}" using d ad by simp_all
    have "inj_on ?f (set (draws x @ allDraws xs))"
      using inj_createId by (rule inj_on_subset) simp
    moreover have "distinct (draws x @ allDraws xs)" using d ad by simp
    ultimately have "distinct (map ?f (draws x @ allDraws xs))"
      by (simp only: distinct_map)
    then have m: "distinct (map ?f (draws x))" "?f ` set (draws x) \<inter> ?f ` set (allDraws xs) = {}"
      by auto
    have "distinct i0" "set i0 \<subseteq> ?f ` set (draws x)" using i0 m(1) by auto
    moreover have "distinct i1" using ih(2) d1(2) by simp
    ultimately show ?thesis using i ih(1) m(2) by auto
  qed
  show ?case using sub dis by blast
qed

lemma exec_live:
  assumes "\<not> hasEnded w" and "wellFormed w" and "liveCalls (length (statusControllers w)) (x # xs)"
  shows "\<exists>w1. exec x w = Some (map (\<lambda>(now, rnd). createId now rnd) (draws x), w1)
            \<and> \<not> hasEnded w1 \<and> liveCalls (length (statusControllers w1)) xs"
proof (cases x)
  case (SendUpdate u)
  then show ?thesis using assms by (simp add: sendUpdate_def hasEnded_def)
next
  case End
  then show ?thesis using assms by simp
next
  case (CreateStatus now rnd s)
  then show ?thesis using assms by (simp add: createStatus_live hasEnded_def)
next
  case (CreateCitationBlock now rnd t src)
  then show ?thesis using assms
    by (simp add: createCitationBlock_def sendUpdate_def hasEnded_def Let_def)
next
  case (CreateDebugInfoBlock now rnd d)
  then show ?thesis using assms
    by (simp add: createDebugInfoBlock_def sendUpdate_def hasEnded_def Let_def)
next
  case (SetText c t)
  have "length (statusControllers (snd (setText c t w))) = length (statusControllers w)"
    using setText_frame[of c t w] by (metis length_map)
  then show ?thesis using SetText assms setText_frame[of c t w] by (simp add: hasEnded_def)
next
  case (SetState c s)
  have "length (statusControllers (snd (setState c s w))) = length (statusControllers w)"
    using setState_frame[of c s w] by (metis length_map)
  then show ?thesis using SetState assms setState_frame[of c s w] by (simp add: hasEnded_def)
next
  case (AddSubStatus now rnd c s)
  then have c: "c < length (statusControllers w)" using assms(3) by simp
  from addSubStatus_live[OF assms(2) c assms(1), of now rnd s]
  obtain w1 where a: "addSubStatus now rnd c s w = Some (Inr (length (statusControllers w)), w1)"
      and len: "length (statusControllers w1) = Suc (length (statusControllers w))"
    by force
  have "endedFlag w1 = endedFlag w"
       "id' (statusControllers w1 ! length (statusControllers w)) = createId now rnd"
    using addSubStatus_frame[OF a c] by simp_all
  then show ?thesis using AddSubStatus c a len assms by (simp add: hasEnded_def)
qed

lemma run_live:
  "\<not> hasEnded w \<Longrightarrow> wellFormed w \<Longrightarrow> liveCalls (length (statusControllers w)) xs
     \<Longrightarrow> \<exists>w1. run xs w = Some (map (\<lambda>(now, rnd). createId now rnd) (allDraws xs), w1)"
proof (induction xs arbitrary: w)
  case Nil
  then show ?case by (simp add: allDraws_def)
next
  case (Cons x xs)
  from exec_live[OF Cons.prems]
  obtain w1 where e: "exec x w = Some (map (\<lambda>(now, rnd). createId now rnd) (draws x), w1)"
      "\<not> hasEnded w1" "liveCalls (length (statusControllers w1)) xs"
    by blast
  from exec_wellFormed[OF Cons.prems(2), of x] e(1) have wf1: "wellFormed w1" by auto
  from Cons.IH[OF e(2) wf1 e(3)]
  obtain w2 where "run xs w1 = Some (map (\<lambda>(now, rnd). createId now rnd) (allDraws xs), w2)"
    by blast
  then show ?case using e(1) by (simp add: allDraws_def)
qed

text \<open>
  C8. As amended: from every store the calls can build, a sequence of calls returns,
  and each identity it generates is \<^verbatim>\<open>`${Date.now()}-${Math.random()}`\<close> for the clock reading
  and the random draw of one of its step-creating calls. The identities are pairwise
  distinct whenever those (clock reading, random draw) pairs are pairwise distinct. While
  the controller has not ended and \<^verbatim>\<open>addSubStatus\<close> is called on existing steps, every
  step-creating call creates its step, and the identities are those of the calls in
  creation order. Nothing orders them.
\<close>

theorem step_ids_distinct_for_distinct_draws:
  assumes "wellFormed w"
  shows "\<exists>ids w1. run xs w = Some (ids, w1)
      \<and> set ids \<subseteq> (\<lambda>(now, rnd). createId now rnd) ` set (allDraws xs)
      \<and> (distinct (allDraws xs) \<longrightarrow> distinct ids)
      \<and> (\<not> hasEnded w \<and> liveCalls (length (statusControllers w)) xs \<longrightarrow>
            ids = map (\<lambda>(now, rnd). createId now rnd) (allDraws xs))"
proof -
  from run_wellFormed[OF assms, of xs] obtain ids w1 where r: "run xs w = Some (ids, w1)"
    by blast
  have "ids = map (\<lambda>(now, rnd). createId now rnd) (allDraws xs)"
    if "\<not> hasEnded w" "liveCalls (length (statusControllers w)) xs"
    using run_live[OF that(1) assms that(2)] r by auto
  then show ?thesis using r run_ids[OF r] by blast
qed

theorem step_ids_distinct_for_distinct_draws_witness:
  "wellFormed (newController :: unit PromptPreprocessController)
   \<and> allDraws mixedCalls = [(5, ''0.9''), (5, ''0.1''), (6, ''0.1''), (7, ''0.25'')]
   \<and> (\<exists>w1. run mixedCalls newController
               = Some ([''5-0.9'', ''5-0.1'', ''6-0.1'', ''7-0.25''], w1))
   \<and> distinct [''5-0.9'', ''5-0.1'', ''6-0.1'', ''7-0.25'']"
proof -
  have wf: "wellFormed (newController :: unit PromptPreprocessController)" by code_simp
  have live: "\<not> hasEnded (newController :: unit PromptPreprocessController)" by code_simp
  have lc: "liveCalls (length (statusControllers (newController :: unit PromptPreprocessController)))
              mixedCalls" by code_simp
  have ad: "allDraws mixedCalls = [(5, ''0.9''), (5, ''0.1''), (6, ''0.1''), (7, ''0.25'')]"
    by code_simp
  have d: "distinct (allDraws mixedCalls)" by code_simp
  have m: "map (\<lambda>(now, rnd). createId now rnd) (allDraws mixedCalls)
         = [''5-0.9'', ''5-0.1'', ''6-0.1'', ''7-0.25'']" by code_simp
  from step_ids_distinct_for_distinct_draws[OF wf, of mixedCalls] live lc d
  obtain ids w1 where "run mixedCalls newController = Some (ids, w1)" "distinct ids"
    "ids = map (\<lambda>(now, rnd). createId now rnd) (allDraws mixedCalls)"
    by blast
  then show ?thesis using wf ad m by auto
qed

text \<open>
  C8 as stated fails. Two step-creating calls within one millisecond: with the random
  draws 0.9 and then 0.1 the identities are not in increasing order; with twice the same
  draw they are equal.
\<close>

theorem step_ids_counterexample:
  "idsOf sameMillisecondCalls = [''5-0.9'', ''5-0.1'']
   \<and> \<not> idsDistinctAndOrdered (idsOf sameMillisecondCalls)
   \<and> idsOf sameDrawCalls = [''5-0.5'', ''5-0.5'']
   \<and> \<not> idsDistinctAndOrdered (idsOf sameDrawCalls)"
  by code_simp

section \<open>The prediction entry points\<close>

text \<open>
  C7. When the model is unloaded, \<^verbatim>\<open>complete\<close> and \<^verbatim>\<open>respond\<close> throw the logger's error
  "Cannot use `complete` because the model is already unloaded."; when the model is
  loaded and validation throws, they throw the validator's error. In both cases the
  port is as before the call: no channel has been created and no message sent.
\<close>

theorem unloaded_or_invalid_throws_before_traffic:
  "(\<not> loaded this \<longrightarrow>
        complete vc this prompt opts port =
          (Inl (loggerThrow ''Cannot use `complete` because the model is already unloaded.''),
           port)
      \<and> respond vr this rawHistory opts port =
          (Inl (loggerThrow ''Cannot use `complete` because the model is already unloaded.''),
           port))
   \<and> (loaded this \<and> vc (prompt, opts) = Inl e \<longrightarrow>
        complete vc this prompt opts port = (Inl e, port))
   \<and> (loaded this \<and> vr (rawHistory, opts) = Inl e \<longrightarrow>
        respond vr this rawHistory opts port = (Inl e, port))"
  by (simp add: complete_def respond_def)

theorem unloaded_or_invalid_throws_before_traffic_witness:
  "complete Inr \<lparr>specifier = JString ''m'', loaded = False\<rparr> ''2+2=''
       \<lparr>config = None, structured = None\<rparr> \<lparr>channels = []\<rparr>
     = (Inl (Error ''Cannot use `complete` because the model is already unloaded.''),
        \<lparr>channels = []\<rparr>)
   \<and> respond (\<lambda>v. Inl (Error ''history: expected an array''))
       \<lparr>specifier = JString ''m'', loaded = True\<rparr> (JString ''2+2='')
       \<lparr>config = None, structured = None\<rparr> \<lparr>channels = []\<rparr>
     = (Inl (Error ''history: expected an array''), \<lparr>channels = []\<rparr>)"
proof -
  have a: "\<not> loaded \<lparr>specifier = JString ''m'', loaded = False\<rparr>" by simp
  have b: "loaded \<lparr>specifier = JString ''m'', loaded = True\<rparr>
        \<and> (\<lambda>v. Inl (Error ''history: expected an array'')) (JString ''2+2='',
              \<lparr>config = None, structured = None\<rparr>) = Inl (Error ''history: expected an array'')"
    by simp
  show ?thesis
    using unloaded_or_invalid_throws_before_traffic
            [where this = "\<lparr>specifier = JString ''m'', loaded = False\<rparr>" and vc = Inr
               and prompt = "''2+2=''" and opts = "\<lparr>config = None, structured = None\<rparr>"
               and port = "\<lparr>channels = []\<rparr>"] a
          unloaded_or_invalid_throws_before_traffic
            [where this = "\<lparr>specifier = JString ''m'', loaded = True\<rparr>"
               and vr = "\<lambda>v. Inl (Error ''history: expected an array'')"
               and rawHistory = "JString ''2+2=''"
               and opts = "\<lparr>config = None, structured = None\<rparr>"
               and port = "\<lparr>channels = []\<rparr>"
               and e = "Error ''history: expected an array''"] b
    by (simp add: loggerThrow_def)
qed

text \<open>
  C2. A call of \<^verbatim>\<open>complete\<close> that passes the checks opens one channel, "predict", and sends
  nothing on it. In the config of its creation parameter \<^verbatim>\<open>inputPrefix\<close> and \<^verbatim>\<open>inputSuffix\<close>
  are the empty string whatever the options hold; \<^verbatim>\<open>stopStrings\<close> is the empty array when
  the options' config has no property \<^verbatim>\<open>stopStrings\<close> and is that property's value when it
  has one; every other property is as in the options' config. A call of \<^verbatim>\<open>respond\<close> that
  passes the checks opens one channel whose creation parameter holds the history, the
  config (the empty object when there is none) and the structured setting unchanged.
  The options and the history are the values validation returns for the caller's: the
  caller's own wherever validation returns its input.
\<close>

theorem complete_and_respond_config:
  assumes "loaded this"
      and "vc (prompt, opts) = Inr (prompt1, opts1)"
      and "vr (rawHistory, ropts) = Inr (history1, ropts1)"
  shows "\<exists>ch rch.
      complete vc this prompt opts port
        = (Inr (length (channels port)), port\<lparr>channels := channels port @ [ch]\<rparr>)
    \<and> endpoint ch = ''predict'' \<and> sent ch = []
    \<and> config' (parameter ch) ''inputPrefix'' = Some (JString '''')
    \<and> config' (parameter ch) ''inputSuffix'' = Some (JString '''')
    \<and> config' (parameter ch) ''stopStrings''
        = (case config opts1 of
             None \<Rightarrow> Some (JArray [])
           | Some c \<Rightarrow> (case c ''stopStrings'' of None \<Rightarrow> Some (JArray []) | Some v \<Rightarrow> Some v))
    \<and> (\<forall>k. k \<notin> {''stopStrings'', ''inputPrefix'', ''inputSuffix''} \<longrightarrow>
           config' (parameter ch) k = (case config opts1 of None \<Rightarrow> None | Some c \<Rightarrow> c k))
    \<and> history (parameter ch)
        = JArray [JObject [(''role'', JString ''user''), (''content'', JString prompt1)]]
    \<and> structured' (parameter ch) = structured opts1
    \<and> respond vr this rawHistory ropts port
        = (Inr (length (channels port)), port\<lparr>channels := channels port @ [rch]\<rparr>)
    \<and> endpoint rch = ''predict'' \<and> sent rch = []
    \<and> history (parameter rch) = history1
    \<and> config' (parameter rch) = (case config ropts1 of None \<Rightarrow> Map.empty | Some c \<Rightarrow> c)
    \<and> structured' (parameter rch) = structured ropts1
    \<and> modelSpecifier (parameter ch) = specifier this
    \<and> modelSpecifier (parameter rch) = specifier this"
proof -
  let ?c1 = "case config opts1 of None \<Rightarrow> Map.empty | Some c \<Rightarrow> c"
  let ?ch = "\<lparr>endpoint = ''predict'',
             parameter = \<lparr>modelSpecifier = specifier this,
               history = JArray [JObject [(''role'', JString ''user''),
                                          (''content'', JString prompt1)]],
               config' = (([''stopStrings'' \<mapsto> JArray []] ++ ?c1)
                           (''inputPrefix'' \<mapsto> JString [],
                            ''inputSuffix'' \<mapsto> JString [])),
               structured' = structured opts1\<rparr>,
             sent = []\<rparr>"
  let ?rch = "\<lparr>endpoint = ''predict'',
             parameter = \<lparr>modelSpecifier = specifier this, history = history1,
               config' = (case config ropts1 of None \<Rightarrow> Map.empty | Some c \<Rightarrow> c),
               structured' = structured ropts1\<rparr>,
             sent = []\<rparr>"
  have c: "complete vc this prompt opts port
        = (Inr (length (channels port)), port\<lparr>channels := channels port @ [?ch]\<rparr>)"
    using assms by (simp add: complete_def predict_def createChannel_def Let_def)
  have r: "respond vr this rawHistory ropts port
        = (Inr (length (channels port)), port\<lparr>channels := channels port @ [?rch]\<rparr>)"
    using assms by (simp add: respond_def predict_def createChannel_def Let_def)
  have s: "config' (parameter ?ch) ''stopStrings''
        = (case config opts1 of
             None \<Rightarrow> Some (JArray [])
           | Some c \<Rightarrow> (case c ''stopStrings'' of None \<Rightarrow> Some (JArray []) | Some v \<Rightarrow> Some v))"
    by (simp add: map_add_def split: option.splits)
  have k: "\<forall>k. k \<notin> {''stopStrings'', ''inputPrefix'', ''inputSuffix''} \<longrightarrow>
           config' (parameter ?ch) k = (case config opts1 of None \<Rightarrow> None | Some c \<Rightarrow> c k)"
    by (auto simp: map_add_def split: option.splits)
  show ?thesis
    apply (rule exI[of _ ?ch])
    apply (rule exI[of _ ?rch])
    apply (intro conjI)
    apply (rule c)
    apply simp
    apply simp
    apply simp
    apply simp
    apply (rule s)
    apply (rule k)
    apply simp
    apply simp
    apply (rule r)
    apply simp_all
    done
qed

theorem complete_and_respond_config_witness:
  "(\<exists>ch rch.
      complete Inr exampleModel ''2+2='' exampleOpts \<lparr>channels = []\<rparr>
        = (Inr 0, \<lparr>channels = [ch]\<rparr>)
    \<and> config' (parameter ch) ''inputPrefix'' = Some (JString '''')
    \<and> config' (parameter ch) ''inputSuffix'' = Some (JString '''')
    \<and> config' (parameter ch) ''stopStrings'' = Some (JArray [JString ''END''])
    \<and> respond Inr exampleModel exampleHistory exampleOpts \<lparr>channels = []\<rparr>
        = (Inr 0, \<lparr>channels = [rch]\<rparr>)
    \<and> history (parameter rch) = exampleHistory
    \<and> config' (parameter rch) ''inputPrefix'' = Some (JString ''### '')
    \<and> config' (parameter rch) ''stopStrings'' = Some (JArray [JString ''END'']))
   \<and> (\<exists>ch. complete Inr exampleModel ''2+2='' \<lparr>config = None, structured = None\<rparr>
               \<lparr>channels = []\<rparr> = (Inr 0, \<lparr>channels = [ch]\<rparr>)
          \<and> config' (parameter ch) ''inputPrefix'' = Some (JString '''')
          \<and> config' (parameter ch) ''inputSuffix'' = Some (JString '''')
          \<and> config' (parameter ch) ''stopStrings'' = Some (JArray []))"
proof -
  let ?p = "\<lparr>channels = []\<rparr>"
  let ?none = "\<lparr>config = None, structured = None\<rparr>"
  have l: "loaded exampleModel" by (simp add: exampleModel_def)
  have c: "config exampleOpts = Some [''stopStrings'' \<mapsto> JArray [JString ''END''],
                     ''inputPrefix'' \<mapsto> JString ''### '']"
    by (simp add: exampleOpts_def)
  have n: "config ?none = None" by simp
  have p: "length (channels ?p) = 0" "\<And>x. ?p\<lparr>channels := channels ?p @ [x]\<rparr> = \<lparr>channels = [x]\<rparr>"
    by simp_all
  have v1: "Inr (''2+2='', exampleOpts) = Inr (''2+2='', exampleOpts)" by simp
  have v2: "Inr (exampleHistory, exampleOpts) = Inr (exampleHistory, exampleOpts)" by simp
  have v3: "Inr (''2+2='', ?none) = Inr (''2+2='', ?none)" by simp
  from complete_and_respond_config[where vc = Inr and vr = Inr and port = ?p, OF l v1 v2]
  obtain ch rch where a:
      "complete Inr exampleModel ''2+2='' exampleOpts ?p
         = (Inr (length (channels ?p)), ?p\<lparr>channels := channels ?p @ [ch]\<rparr>)"
      "config' (parameter ch) ''inputPrefix'' = Some (JString '''')"
      "config' (parameter ch) ''inputSuffix'' = Some (JString '''')"
      "config' (parameter ch) ''stopStrings''
        = (case config exampleOpts of
             None \<Rightarrow> Some (JArray [])
           | Some c \<Rightarrow> (case c ''stopStrings'' of None \<Rightarrow> Some (JArray []) | Some v \<Rightarrow> Some v))"
      "respond Inr exampleModel exampleHistory exampleOpts ?p
         = (Inr (length (channels ?p)), ?p\<lparr>channels := channels ?p @ [rch]\<rparr>)"
      "history (parameter rch) = exampleHistory"
      "config' (parameter rch) = (case config exampleOpts of None \<Rightarrow> Map.empty | Some c \<Rightarrow> c)"
    by blast
  have a1: "complete Inr exampleModel ''2+2='' exampleOpts ?p = (Inr 0, \<lparr>channels = [ch]\<rparr>)"
    using a(1) by (simp only: p)
  have a4: "config' (parameter ch) ''stopStrings'' = Some (JArray [JString ''END''])"
    by (simp only: a(4) c) simp
  have a5: "respond Inr exampleModel exampleHistory exampleOpts ?p = (Inr 0, \<lparr>channels = [rch]\<rparr>)"
    using a(5) by (simp only: p)
  have a7: "config' (parameter rch) ''inputPrefix'' = Some (JString ''### '')"
           "config' (parameter rch) ''stopStrings'' = Some (JArray [JString ''END''])"
    by (simp_all only: a(7) c) simp_all
  have first: "\<exists>ch rch.
      complete Inr exampleModel ''2+2='' exampleOpts ?p = (Inr 0, \<lparr>channels = [ch]\<rparr>)
    \<and> config' (parameter ch) ''inputPrefix'' = Some (JString '''')
    \<and> config' (parameter ch) ''inputSuffix'' = Some (JString '''')
    \<and> config' (parameter ch) ''stopStrings'' = Some (JArray [JString ''END''])
    \<and> respond Inr exampleModel exampleHistory exampleOpts ?p = (Inr 0, \<lparr>channels = [rch]\<rparr>)
    \<and> history (parameter rch) = exampleHistory
    \<and> config' (parameter rch) ''inputPrefix'' = Some (JString ''### '')
    \<and> config' (parameter rch) ''stopStrings'' = Some (JArray [JString ''END''])"
    using a1 a(2,3) a4 a5 a(6) a7 by (intro exI[of _ ch] exI[of _ rch] conjI)
  from complete_and_respond_config[where vc = Inr and vr = Inr and port = ?p, OF l v3 v2]
  obtain ch2 where b:
      "complete Inr exampleModel ''2+2='' ?none ?p
         = (Inr (length (channels ?p)), ?p\<lparr>channels := channels ?p @ [ch2]\<rparr>)"
      "config' (parameter ch2) ''inputPrefix'' = Some (JString '''')"
      "config' (parameter ch2) ''inputSuffix'' = Some (JString '''')"
      "config' (parameter ch2) ''stopStrings''
        = (case config ?none of
             None \<Rightarrow> Some (JArray [])
           | Some c \<Rightarrow> (case c ''stopStrings'' of None \<Rightarrow> Some (JArray []) | Some v \<Rightarrow> Some v))"
    by blast
  have b1: "complete Inr exampleModel ''2+2='' ?none ?p = (Inr 0, \<lparr>channels = [ch2]\<rparr>)"
    using b(1) by (simp only: p)
  have b4: "config' (parameter ch2) ''stopStrings'' = Some (JArray [])"
    by (simp only: b(4) n) simp
  have second: "\<exists>ch. complete Inr exampleModel ''2+2='' ?none ?p = (Inr 0, \<lparr>channels = [ch]\<rparr>)
          \<and> config' (parameter ch) ''inputPrefix'' = Some (JString '''')
          \<and> config' (parameter ch) ''inputSuffix'' = Some (JString '''')
          \<and> config' (parameter ch) ''stopStrings'' = Some (JArray [])"
    using b1 b(2,3) b4 by (intro exI[of _ ch2] conjI)
  show ?thesis using first second by (rule conjI)
qed

section \<open>UtilBinary.check\<close>

text \<open>
  C9. Whatever the promise of \<^verbatim>\<open>access\<close> settles to, and so whatever is or is not on disk
  at the computed path, the promise \<^verbatim>\<open>check\<close> returns is fulfilled: it is never rejected,
  with "Cannot locate required dependencies" or with anything else.
\<close>

theorem check_always_resolves:
  "check access this = Fulfilled () \<and> check access this \<noteq> Rejected e"
  by (simp add: check_def callAsync_def)

section \<open>Streaming: pushes, finish and the iterations\<close>

lemma runEvents_append: "runEvents (xs @ ys) s = runEvents ys (runEvents xs s)"
  by (induction xs arbitrary: s) simp_all

text \<open>While no event ends the prediction, it stays pending and collects the pushes.\<close>

lemma runEvents_pending:
  "terminal (prediction s) = Pending \<Longrightarrow> \<forall>e \<in> set es. \<not> endsPrediction e
     \<Longrightarrow> terminal (prediction (runEvents es s)) = Pending
       \<and> fragments (prediction (runEvents es s)) = fragments (prediction s) @ pushed es"
proof (induction es arbitrary: s)
  case Nil
  then show ?case by simp
next
  case (Cons e es)
  have "terminal (prediction (step e s)) = Pending
      \<and> fragments (prediction (step e s)) = fragments (prediction s) @ pushed [e]"
    using Cons.prems by (cases e) (auto simp: push_def split: option.splits)
  moreover have "pushed (e # es) = pushed [e] @ pushed es" by (cases e) simp_all
  ultimately show ?case using Cons.IH[of "step e s"] Cons.prems(2) by simp
qed

text \<open>A terminal prediction does not change any more.\<close>

lemma step_terminal:
  "terminal (prediction s) \<noteq> Pending \<Longrightarrow> prediction (step e s) = prediction s"
  by (cases e) (auto simp: push_def finish_def fail_def split: option.splits)

lemma runEvents_terminal:
  "terminal (prediction s) \<noteq> Pending \<Longrightarrow> prediction (runEvents es s) = prediction s"
proof (induction es arbitrary: s)
  case Nil
  then show ?case by simp
next
  case (Cons e es)
  then show ?case using step_terminal[of s e] by simp
qed

lemma replayed_push:
  "replayed p it \<Longrightarrow> replayed (push f p) it"
  by (auto simp: replayed_def push_def)

lemma replayed_finish:
  "replayed p it \<Longrightarrow> replayed (finish st mi p) it"
  by (auto simp: replayed_def finish_def)

lemma replayed_pull:
  "replayed p it \<Longrightarrow> \<forall>e. terminal p \<noteq> Failed e \<Longrightarrow> replayed p (pull p it)"
  by (cases "terminal p")
     (auto simp: replayed_def pull_def take_Suc_conv_app_nth split: iteration.splits)

lemma replayed_begin: "replayed p begin'"
  by (simp add: replayed_def begin'_def)

lemma terminal_push: "terminal (push f p) = terminal p"
  by (simp add: push_def)

lemma finish_not_failed: "terminal p \<noteq> Failed e \<Longrightarrow> terminal (finish st mi p) \<noteq> Failed e"
  by (simp add: finish_def)

lemma step_sound:
  assumes "sound s" and "\<forall>x. e = Fail x \<longrightarrow> terminal (prediction s) \<noteq> Pending"
  shows "sound (step e s)"
proof (cases e)
  case (Push f)
  then show ?thesis using assms(1) by (simp add: sound_def replayed_push terminal_push)
next
  case (Finish st mi)
  then show ?thesis using assms(1) by (simp add: sound_def replayed_finish finish_not_failed)
next
  case (Fail x)
  then show ?thesis using assms by (simp add: fail_def)
next
  case (Begin c)
  then show ?thesis using assms(1)
    by (auto simp: sound_def replayed_begin split: option.splits)
next
  case (Pull c)
  then show ?thesis using assms(1)
    by (auto simp: sound_def replayed_pull split: option.splits)
qed

lemma runEvents_sound_pending:
  "sound s \<Longrightarrow> \<forall>e \<in> set es. \<not> endsPrediction e \<Longrightarrow> sound (runEvents es s)"
proof (induction es arbitrary: s)
  case Nil
  then show ?case by simp
next
  case (Cons e es)
  have "\<forall>x. e = Fail x \<longrightarrow> terminal (prediction s) \<noteq> Pending" using Cons.prems(2) by auto
  then have "sound (step e s)" using step_sound[OF Cons.prems(1)] by simp
  then show ?case using Cons.IH Cons.prems(2) by simp
qed

lemma runEvents_sound_terminal:
  "sound s \<Longrightarrow> terminal (prediction s) \<noteq> Pending \<Longrightarrow> sound (runEvents es s)"
proof (induction es arbitrary: s)
  case Nil
  then show ?case by simp
next
  case (Cons e es)
  have "sound (step e s)" using step_sound[OF Cons.prems(1)] Cons.prems(2) by simp
  moreover have "terminal (prediction (step e s)) \<noteq> Pending"
    using step_terminal[OF Cons.prems(2), of e] Cons.prems(2) by simp
  ultimately show ?case using Cons.IH by simp
qed

text \<open>An iteration, once begun, stays.\<close>

lemma step_keeps_iterator: "iterators s c \<noteq> None \<Longrightarrow> iterators (step e s) c \<noteq> None"
  by (cases e) (auto split: option.splits)

lemma runEvents_keeps_iterator:
  "iterators s c \<noteq> None \<Longrightarrow> iterators (runEvents es s) c \<noteq> None"
proof (induction es arbitrary: s)
  case Nil
  then show ?case by simp
next
  case (Cons e es)
  have "iterators (step e s) c \<noteq> None" using step_keeps_iterator[OF Cons.prems] .
  then show ?case using Cons.IH by simp
qed

lemma runEvents_begun:
  "Begin c \<in> set es \<Longrightarrow> iterators (runEvents es s) c \<noteq> None"
proof (induction es arbitrary: s)
  case Nil
  then show ?case by simp
next
  case (Cons e es)
  show ?case
  proof (cases "e = Begin c")
    case True
    then have "iterators (step e s) c \<noteq> None" by (auto split: option.splits)
    then show ?thesis using runEvents_keeps_iterator by simp
  next
    case False
    then show ?thesis using Cons by simp
  qed
qed

text \<open>After a success, an iteration that is asked often enough yields the rest and completes.\<close>

lemma pull_drains:
  assumes "terminal p = Succeeded r"
  shows "replayed p it \<Longrightarrow> length (fragments p) - cursor it < n
     \<Longrightarrow> (pull p ^^ n) it
         = \<lparr>cursor = length (fragments p), yielded = fragments p, outcome = Completed\<rparr>"
proof (induction n arbitrary: it)
  case 0
  then show ?case by simp
next
  case (Suc n)
  have stay: "pull p \<lparr>cursor = length (fragments p), yielded = fragments p, outcome = Completed\<rparr>
           = \<lparr>cursor = length (fragments p), yielded = fragments p, outcome = Completed\<rparr>"
    by (simp add: pull_def)
  have comm: "(pull p ^^ Suc n) it = (pull p ^^ n) (pull p it)"
    by (simp only: funpow_Suc_right o_apply)
  show ?case
  proof (cases "outcome it = Iterating \<and> cursor it < length (fragments p)")
    case True
    then have "replayed p (pull p it)" using replayed_pull[OF Suc.prems(1)] assms by simp
    moreover have "cursor (pull p it) = Suc (cursor it)" using True by (simp add: pull_def)
    moreover have "length (fragments p) - Suc (cursor it) < n" using True Suc.prems(2) by arith
    ultimately show ?thesis using Suc.IH[of "pull p it"] comm by simp
  next
    case False
    then have "pull p it = \<lparr>cursor = length (fragments p), yielded = fragments p, outcome = Completed\<rparr>"
      using Suc.prems(1) assms by (auto simp: replayed_def pull_def split: iteration.splits)
    moreover have "(pull p ^^ n) \<lparr>cursor = length (fragments p), yielded = fragments p,
                       outcome = Completed\<rparr>
        = \<lparr>cursor = length (fragments p), yielded = fragments p, outcome = Completed\<rparr>"
      using stay by (induction n) simp_all
    ultimately show ?thesis using comm by simp
  qed
qed

lemma runEvents_pulls:
  "iterators s c = Some it \<Longrightarrow>
     prediction (runEvents (replicate n (Pull c)) s) = prediction s
   \<and> iterators (runEvents (replicate n (Pull c)) s) c = Some ((pull (prediction s) ^^ n) it)"
proof (induction n arbitrary: s it)
  case 0
  then show ?case by simp
next
  case (Suc n)
  let ?s1 = "s\<lparr>iterators := (iterators s)(c \<mapsto> pull (prediction s) it)\<rparr>"
  have s1: "step (Pull c) s = ?s1" using Suc.prems by simp
  have i1: "iterators ?s1 c = Some (pull (prediction s) it)" by simp
  have p1: "prediction ?s1 = prediction s" by simp
  from Suc.IH[OF i1]
  have "prediction (runEvents (replicate n (Pull c)) ?s1) = prediction s
      \<and> iterators (runEvents (replicate n (Pull c)) ?s1) c
          = Some ((pull (prediction s) ^^ n) (pull (prediction s) it))"
    by (simp only: p1)
  then show ?case by (simp only: replicate_Suc runEvents.simps s1 funpow_Suc_right o_apply)
qed

lemma sound_start: "sound start"
  by (simp add: sound_def start_def create_def)

text \<open>
  C1. Take any interleaving \<open>es\<close> of channel and consumer events in which fragments are
  pushed and then \<^verbatim>\<open>finish\<close> is called (no \<^verbatim>\<open>finish\<close> or \<^verbatim>\<open>fail\<close> before it; anything may
  follow), and a consumer \<open>c\<close> that begins iterating at any point of it, before or after
  any push or the finish. Then the awaited form resolves to a result whose content is
  the concatenation of the pushed fragments in push order, with the statistics and model
  descriptor given to \<^verbatim>\<open>finish\<close>; and the iteration of \<open>c\<close>, asked for its next item often
  enough, has yielded exactly the pushed fragments in that order and has then completed
  normally.
\<close>

theorem pushes_then_finish:
  assumes "es = before @ Finish st mi # after"
      and "\<forall>e \<in> set before. \<not> endsPrediction e"
      and "Begin c \<in> set es"
      and "length (pushed before) < n"
  shows "awaited (prediction (runEvents (es @ replicate n (Pull c)) start))
           = Some (Inr \<lparr>content = concat (pushed before), stats = st, modelInfo = mi\<rparr>)
       \<and> fragments (prediction (runEvents (es @ replicate n (Pull c)) start)) = pushed before
       \<and> iterators (runEvents (es @ replicate n (Pull c)) start) c
           = Some \<lparr>cursor = length (pushed before), yielded = pushed before,
                   outcome = Completed\<rparr>"
proof -
  let ?r = "\<lparr>content = concat (pushed before), stats = st, modelInfo = mi\<rparr>"
  define s1 where "s1 = runEvents before start"
  define s2 where "s2 = step (Finish st mi) s1"
  define s3 where "s3 = runEvents after s2"
  have pend: "terminal (prediction start) = Pending" "fragments (prediction start) = []"
    by (simp_all add: start_def create_def)
  have p1: "terminal (prediction s1) = Pending" "fragments (prediction s1) = pushed before"
    using runEvents_pending[OF pend(1) assms(2)] pend(2) by (simp_all add: s1_def)
  have sound1: "sound s1"
    using runEvents_sound_pending[OF sound_start assms(2)] by (simp add: s1_def)
  have p2: "prediction s2 = \<lparr>fragments = pushed before, terminal = Succeeded ?r\<rparr>"
    using p1 by (simp add: s2_def finish_def)
  have sound2: "sound s2"
    using step_sound[OF sound1, of "Finish st mi"] by (simp add: s2_def)
  have t2: "terminal (prediction s2) \<noteq> Pending" by (simp add: p2)
  have p3: "prediction s3 = \<lparr>fragments = pushed before, terminal = Succeeded ?r\<rparr>"
    using runEvents_terminal[OF t2, of after] p2 by (simp add: s3_def)
  have sound3: "sound s3"
    using runEvents_sound_terminal[OF sound2 t2] by (simp add: s3_def)
  have run: "runEvents es start = s3"
    by (simp add: assms(1) runEvents_append s1_def s2_def s3_def)
  obtain it where it: "iterators s3 c = Some it"
    using runEvents_begun[OF assms(3), of start] run by auto
  have rep: "replayed (prediction s3) it" using sound3 it by (simp add: sound_def)
  have t3: "terminal (prediction s3) = Succeeded ?r" by (simp add: p3)
  have n: "length (fragments (prediction s3)) - cursor it < n"
    using assms(4) by (simp add: p3)
  have drained: "(pull (prediction s3) ^^ n) it
      = \<lparr>cursor = length (pushed before), yielded = pushed before, outcome = Completed\<rparr>"
    using pull_drains[OF t3 rep n] by (simp add: p3)
  have fin: "runEvents (es @ replicate n (Pull c)) start = runEvents (replicate n (Pull c)) s3"
    by (simp add: runEvents_append run)
  show ?thesis
    using runEvents_pulls[OF it, of n] drained
    by (simp add: fin p3 awaited_def)
qed

theorem pushes_then_finish_witness:
  "pushed [Begin 1, Push ''2 + 2'', Pull 1, Push '' = '', Begin 2, Pull 2, Push ''4'']
     = [''2 + 2'', '' = '', ''4'']
   \<and> awaited (prediction (runEvents (streamingEvents @ replicate 4 (Pull 3)) start))
     = Some (Inr \<lparr>content = ''2 + 2 = 4'',
                  stats = JObject [(''tokensPerSecond'', JNumber 10)],
                  modelInfo = JString ''my-model''\<rparr>)
   \<and> iterators (runEvents (streamingEvents @ replicate 4 (Pull 3)) start) 3
     = Some \<lparr>cursor = 3, yielded = [''2 + 2'', '' = '', ''4''], outcome = Completed\<rparr>
   \<and> iterators (runEvents (streamingEvents @ replicate 4 (Pull 1)) start) 1
     = Some \<lparr>cursor = 3, yielded = [''2 + 2'', '' = '', ''4''], outcome = Completed\<rparr>"
proof -
  let ?before = "[Begin 1, Push ''2 + 2'', Pull 1, Push '' = '', Begin 2, Pull 2, Push ''4'']"
  let ?st = "JObject [(''tokensPerSecond'', JNumber 10)]"
  let ?mi = "JString ''my-model''"
  have e: "streamingEvents = ?before @ Finish ?st ?mi # [Pull 1, Begin 3]"
    by (simp add: streamingEvents_def)
  have b: "\<forall>e \<in> set ?before. \<not> endsPrediction e" by simp
  have c3: "Begin 3 \<in> set streamingEvents" by (simp add: streamingEvents_def)
  have c1: "Begin 1 \<in> set streamingEvents" by (simp add: streamingEvents_def)
  have p: "pushed ?before = [''2 + 2'', '' = '', ''4'']" by simp
  have n: "length (pushed ?before) < 4" by simp
  show ?thesis
    using pushes_then_finish[OF e b c3 n] pushes_then_finish[OF e b c1 n] p
    by simp
qed

end
